theory Spec2Isabelle
  imports Complex_Main
begin

section \<open>The wear-a-hat sample: data model\<close>

text \<open>
  Source: \<^verbatim>\<open>src/samples/wear-a-hat/src/app.ts\<close>.  JavaScript numbers are modelled as
  real numbers; the functions below only copy them, add the menu step to them or hand
  them to the SDK.  Identifiers handed out by the runtime (actor and mesh ids) are
  modelled as the position of the object in the runtime's creation log, so that a newly
  created object always has a fresh id.
\<close>

record Vector3 =
  vec_x :: real
  vec_y :: real
  vec_z :: real

text \<open>\<^verbatim>\<open>type HatDescriptor\<close>.  The JSON file may leave \<^verbatim>\<open>resourceName\<close> out, in
  which case reading it gives \<^verbatim>\<open>undefined\<close>, here \<open>None\<close>.\<close>

record HatDescriptor =
  displayName :: string
  resourceName :: "string option"
  scale :: Vector3
  rotation :: Vector3
  position :: Vector3

text \<open>\<^verbatim>\<open>type HatDatabase = { [key: string]: HatDescriptor }\<close>: the own properties of the
  object loaded from \<^verbatim>\<open>hats.json\<close>, in the order in which the file declares them.  An
  object has each key once.  \<open>lookup\<close> finds the own property of a name, if there is
  one.\<close>

type_synonym HatDatabase = "(string \<times> HatDescriptor) list"

definition lookup :: "(string \<times> 'a) list \<Rightarrow> string \<Rightarrow> 'a option" where
  "lookup obj k = map_of obj k"

text \<open>The catalog and the tables \<^verbatim>\<open>prefabs\<close> and \<^verbatim>\<open>attachedHats\<close> are plain objects, so a
  read \<^verbatim>\<open>obj[k]\<close> gives the own property \<open>k\<close> when the object has one and otherwise what
  the object inherits from \<^verbatim>\<open>Object.prototype\<close>.  These are the names of the inherited
  properties.  Each of them reads as a function, except \<^verbatim>\<open>__proto__\<close>, which reads as the
  prototype object: in every case a truthy value that has none of the properties
  \<^verbatim>\<open>resourceName\<close>, \<^verbatim>\<open>displayName\<close>, \<^verbatim>\<open>id\<close> and \<^verbatim>\<open>destroy\<close>.  Any other name that is not
  an own property reads as \<^verbatim>\<open>undefined\<close>.\<close>

definition Object_prototype_keys :: "string list" where
  "Object_prototype_keys =
     [''constructor'', ''__defineGetter__'', ''__defineSetter__'', ''hasOwnProperty'',
      ''__lookupGetter__'', ''__lookupSetter__'', ''isPrototypeOf'', ''propertyIsEnumerable'',
      ''toString'', ''valueOf'', ''__proto__'', ''toLocaleString'']"

datatype 'a property = Undefined | Inherited | Own 'a

definition read_property :: "(string \<rightharpoonup> 'a) \<Rightarrow> string \<Rightarrow> 'a property" where
  "read_property own k =
     (case own k of
        Some v \<Rightarrow> Own v
      | None \<Rightarrow> if k \<in> set Object_prototype_keys then Inherited else Undefined)"

text \<open>\<^verbatim>\<open>Object.keys\<close> does not list the keys in the order of their declaration: by the
  language's rule for the own property keys of an object, the keys that are array indices
  come first, in ascending numeric order, and the other keys follow in the order in which
  the properties were created.  An array index is the canonical decimal numeral of an
  integer from 0 to \<^verbatim>\<open>2^32 - 2\<close>: digits only, and no leading zero unless it is the
  numeral 0 itself.\<close>

definition digit :: "char \<Rightarrow> bool" where
  "digit c \<longleftrightarrow> 48 \<le> (of_char c :: nat) \<and> (of_char c :: nat) \<le> 57"

definition digits_value :: "string \<Rightarrow> nat" where
  "digits_value k = foldl (\<lambda>n c. 10 * n + (of_char c - 48)) 0 k"

definition is_array_index :: "string \<Rightarrow> bool" where
  "is_array_index k \<longleftrightarrow>
     k \<noteq> [] \<and> list_all digit k \<and> (k = ''0'' \<or> hd k \<noteq> CHR ''0'') \<and>
     digits_value k < 2 ^ 32 - 1"

definition Object_entries :: "(string \<times> 'a) list \<Rightarrow> (string \<times> 'a) list" where
  "Object_entries obj =
     sort_key (\<lambda>e. digits_value (fst e)) (filter (\<lambda>e. is_array_index (fst e)) obj) @
     filter (\<lambda>e. \<not> is_array_index (fst e)) obj"

definition Object_keys :: "(string \<times> 'a) list \<Rightarrow> string list" where
  "Object_keys obj = map fst (Object_entries obj)"

text \<open>JavaScript truthiness of an optional string: \<^verbatim>\<open>undefined\<close> and the empty string
  are falsy.\<close>

definition truthy :: "string option \<Rightarrow> bool" where
  "truthy v = (case v of None \<Rightarrow> False | Some s \<Rightarrow> s \<noteq> [])"

text \<open>An asset of a loaded glTF file: its id, and whether its \<^verbatim>\<open>prefab\<close> getter is
  different from \<^verbatim>\<open>null\<close>.\<close>

record Asset =
  asset_id :: string
  prefab_not_null :: bool

datatype TextAnchorLocation = MiddleLeft | MiddleCenter

datatype Color3 = Yellow

datatype ColliderType = Auto

record TextLike =
  contents :: "string option"
  height :: real
  anchor :: TextAnchorLocation
  color :: "Color3 option"

record AttachmentLike =
  attachPoint :: string
  userId :: string

text \<open>The part of \<^verbatim>\<open>ActorLike\<close> that the application fills in.  A field that an actor
  definition leaves out is \<open>None\<close>.\<close>

record 'q ActorLike =
  parentId :: "nat option"
  actor_name :: "string option"
  meshId :: "nat option"
  collider :: "ColliderType option"
  actor_text :: "TextLike option"
  local_position :: "Vector3 option"
  local_rotation :: "'q option"
  local_scale :: "Vector3 option"
  prefabId :: "string option"
  attachment :: "AttachmentLike option"

definition no_fields :: "'q ActorLike" where
  "no_fields = \<lparr>parentId = None, actor_name = None, meshId = None, collider = None,
     actor_text = None, local_position = None, local_rotation = None, local_scale = None,
     prefabId = None, attachment = None\<rparr>"

record BoxMesh =
  mesh_name :: string
  mesh_width :: real
  mesh_height :: real
  mesh_depth :: real

text \<open>What the application can observe of the runtime (\<^verbatim>\<open>MRE.Context\<close> and the
  \<^verbatim>\<open>AssetContainer\<close>): every actor ever created, in creation order, the actor's id being
  its position in that list; the ids on which \<^verbatim>\<open>destroy()\<close> was called; the click
  handlers registered, each as the button's id and the hat id its closure holds; the
  meshes created.\<close>

record 'q Context =
  actors :: "'q ActorLike list"
  destroyed :: "nat set"
  clickHandlers :: "(nat \<times> string) list"
  meshes :: "BoxMesh list"

text \<open>The module-level \<^verbatim>\<open>HatDatabase\<close>, the fields of the \<^verbatim>\<open>WearAHat\<close> instance, and
  the values passed to \<^verbatim>\<open>log.error\<close>.  The table \<^verbatim>\<open>this.prefabs\<close> is given by the prefab
  stored under each key, and by the set of the keys whose own property holds
  \<^verbatim>\<open>undefined\<close>, which a load leaves when its result has no prefab.\<close>

record 'q WearAHat =
  HatDatabase :: HatDatabase
  baseUrl :: string
  ctx :: "'q Context"
  prefabs :: "string \<rightharpoonup> Asset"
  undefined_prefabs :: "string set"
  attachedHats :: "string \<rightharpoonup> nat"
  error_log :: "string list"

text \<open>The exceptions: a \<^verbatim>\<open>TypeError\<close> of the language, and an error thrown by the
  SDK.\<close>

datatype js_error = TypeError | SdkError

text \<open>What \<^verbatim>\<open>wearHat\<close> uses of the SDK and is not part of this repository: the constant
  \<^verbatim>\<open>MRE.DegreesToRadians\<close>; the function \<^verbatim>\<open>MRE.Quaternion.FromEulerAngles\<close>, whose result
  type is the parameter \<open>'q\<close>; and what \<^verbatim>\<open>MRE.Actor.CreateFromPrefab\<close> does when the
  \<^verbatim>\<open>prefabId\<close> it is given is \<^verbatim>\<open>undefined\<close>: the error it throws, or \<open>None\<close> when it
  creates the actor all the same.\<close>

record 'q Sdk =
  DegreesToRadians :: real
  FromEulerAngles :: "real \<Rightarrow> real \<Rightarrow> real \<Rightarrow> 'q"
  CreateFromPrefab_without_id :: "js_error option"

section \<open>Runtime primitives\<close>

text \<open>\<^verbatim>\<open>MRE.Actor.Create\<close> and \<^verbatim>\<open>MRE.Actor.CreateFromPrefab\<close>: the new actor is
  appended to the log and its id returned.  \<^verbatim>\<open>CreateFromPrefab\<close> is given the value of
  \<^verbatim>\<open>prefabId\<close>, which is \<open>None\<close> for \<^verbatim>\<open>undefined\<close>.\<close>

definition Actor_Create :: "'q ActorLike \<Rightarrow> 'q Context \<Rightarrow> nat \<times> 'q Context" where
  "Actor_Create a c = (length (actors c), c\<lparr>actors := actors c @ [a]\<rparr>)"

definition Actor_CreateFromPrefab ::
  "'q Sdk \<Rightarrow> string option \<Rightarrow> 'q ActorLike \<Rightarrow> 'q Context \<Rightarrow> js_error + nat \<times> 'q Context" where
  "Actor_CreateFromPrefab sdk pid a c =
     (case pid of
        Some i \<Rightarrow> Inr (Actor_Create (a\<lparr>prefabId := Some i\<rparr>) c)
      | None \<Rightarrow>
          (case CreateFromPrefab_without_id sdk of
             Some e \<Rightarrow> Inl e
           | None \<Rightarrow> Inr (Actor_Create (a\<lparr>prefabId := None\<rparr>) c)))"

definition destroy :: "nat \<Rightarrow> 'q Context \<Rightarrow> 'q Context" where
  "destroy a c = c\<lparr>destroyed := insert a (destroyed c)\<rparr>"

definition setBehavior_onClick :: "nat \<Rightarrow> string \<Rightarrow> 'q Context \<Rightarrow> 'q Context" where
  "setBehavior_onClick b hatId c = c\<lparr>clickHandlers := clickHandlers c @ [(b, hatId)]\<rparr>"

definition createBoxMesh ::
  "string \<Rightarrow> real \<Rightarrow> real \<Rightarrow> real \<Rightarrow> 'q Context \<Rightarrow> nat \<times> 'q Context" where
  "createBoxMesh n w h d c =
     (length (meshes c),
      c\<lparr>meshes := meshes c @ [\<lparr>mesh_name = n, mesh_width = w, mesh_height = h, mesh_depth = d\<rparr>]\<rparr>)"

section \<open>userLeft and wearHat\<close>

text \<open>The first two statements of both \<^verbatim>\<open>userLeft\<close> and \<^verbatim>\<open>wearHat\<close>:
  \<^verbatim>\<open>if (this.attachedHats[id]) { this.attachedHats[id].destroy(); }\<close> followed by
  \<^verbatim>\<open>delete this.attachedHats[id]\<close>; the result is the exception thrown, if any, and the
  state that is left.  An actor of the table is truthy and is destroyed.  When the table
  has no own property \<open>id\<close> but \<open>id\<close> is the name of an inherited property, the value read
  is truthy as well, and calling its \<^verbatim>\<open>destroy\<close>, which is \<^verbatim>\<open>undefined\<close>, throws a
  \<^verbatim>\<open>TypeError\<close> before the \<^verbatim>\<open>delete\<close> is reached.\<close>

definition destroy_attached :: "string \<Rightarrow> 'q WearAHat \<Rightarrow> js_error option \<times> 'q WearAHat" where
  "destroy_attached uid s =
     (case read_property (attachedHats s) uid of
        Own a \<Rightarrow>
          (None, s\<lparr>ctx := destroy a (ctx s), attachedHats := (attachedHats s)(uid := None)\<rparr>)
      | Inherited \<Rightarrow> (Some TypeError, s)
      | Undefined \<Rightarrow> (None, s\<lparr>attachedHats := (attachedHats s)(uid := None)\<rparr>))"

definition userLeft :: "string \<Rightarrow> 'q WearAHat \<Rightarrow> js_error option \<times> 'q WearAHat" where
  "userLeft uid s = destroy_attached uid s"

text \<open>The \<^verbatim>\<open>actor\<close> part of the argument that \<^verbatim>\<open>wearHat\<close> passes to
  \<^verbatim>\<open>CreateFromPrefab\<close>.\<close>

definition hat_actor :: "'q Sdk \<Rightarrow> HatDescriptor \<Rightarrow> string \<Rightarrow> 'q ActorLike" where
  "hat_actor sdk hatRecord uid =
     no_fields
       \<lparr>local_position := Some (position hatRecord),
        local_rotation := Some (FromEulerAngles sdk
          (vec_x (rotation hatRecord) * DegreesToRadians sdk)
          (vec_y (rotation hatRecord) * DegreesToRadians sdk)
          (vec_z (rotation hatRecord) * DegreesToRadians sdk)),
        local_scale := Some (scale hatRecord),
        attachment := Some \<lparr>attachPoint = ''head'', userId = uid\<rparr>\<rparr>"

text \<open>The read \<^verbatim>\<open>this.prefabs[hatId]\<close>.  An own property that holds \<^verbatim>\<open>undefined\<close> hides
  an inherited property of the same name.\<close>

definition read_prefab :: "'q WearAHat \<Rightarrow> string \<Rightarrow> Asset property" where
  "read_prefab s k =
     (if prefabs s k = None \<and> k \<in> undefined_prefabs s then Undefined
      else read_property (prefabs s) k)"

text \<open>The last statement of \<^verbatim>\<open>wearHat\<close>, once the value of \<^verbatim>\<open>prefabId\<close> is known:
  \<^verbatim>\<open>this.attachedHats[userId] = MRE.Actor.CreateFromPrefab(...)\<close>.  Nothing is assigned
  when the call throws.\<close>

definition attach_new ::
  "'q Sdk \<Rightarrow> string option \<Rightarrow> HatDescriptor \<Rightarrow> string \<Rightarrow> 'q WearAHat \<Rightarrow>
     js_error option \<times> 'q WearAHat" where
  "attach_new sdk pid hatRecord uid s =
     (case Actor_CreateFromPrefab sdk pid (hat_actor sdk hatRecord uid) (ctx s) of
        Inl e \<Rightarrow> (Some e, s)
      | Inr (a, c) \<Rightarrow> (None, s\<lparr>ctx := c, attachedHats := (attachedHats s)(uid \<mapsto> a)\<rparr>))"

text \<open>\<^verbatim>\<open>wearHat\<close> returns the exception it throws, if any, and the state it leaves.
  An exception of the first statement ends the call.  Reading \<^verbatim>\<open>resourceName\<close> of an
  undefined record throws a \<^verbatim>\<open>TypeError\<close>; when \<open>hatId\<close> is not a key of the catalog but
  the name of an inherited property, the value read has no \<^verbatim>\<open>resourceName\<close> and
  \<^verbatim>\<open>wearHat\<close> takes the early return.  Reading \<^verbatim>\<open>id\<close> of an undefined prefab throws a
  \<^verbatim>\<open>TypeError\<close>, while the argument of \<^verbatim>\<open>CreateFromPrefab\<close> is built and before the call;
  when the prefab table has no own property \<open>hatId\<close> but \<open>hatId\<close> is the name of an
  inherited property, the \<^verbatim>\<open>id\<close> of the value read is \<^verbatim>\<open>undefined\<close>, and that is the
  \<^verbatim>\<open>prefabId\<close> given to \<^verbatim>\<open>CreateFromPrefab\<close>.\<close>

definition wearHat ::
  "'q Sdk \<Rightarrow> string \<Rightarrow> string \<Rightarrow> 'q WearAHat \<Rightarrow> js_error option \<times> 'q WearAHat" where
  "wearHat sdk hatId uid s =
     (case destroy_attached uid s of
        (Some e, s1) \<Rightarrow> (Some e, s1)
      | (None, s2) \<Rightarrow>
          (case read_property (lookup (HatDatabase s2)) hatId of
             Undefined \<Rightarrow> (Some TypeError, s2)
           | Inherited \<Rightarrow> (None, s2)
           | Own hatRecord \<Rightarrow>
               if \<not> truthy (resourceName hatRecord) then (None, s2)
               else
                 (case read_prefab s2 hatId of
                    Undefined \<Rightarrow> (Some TypeError, s2)
                  | Inherited \<Rightarrow> attach_new sdk None hatRecord uid s2
                  | Own p \<Rightarrow> attach_new sdk (Some (asset_id p)) hatRecord uid s2)))"

text \<open>A sequence of \<^verbatim>\<open>wearHat\<close> and \<^verbatim>\<open>userLeft\<close> calls made for one user.  An
  exception thrown by a call ends that call only; the state it leaves is the state the
  next call finds.\<close>

datatype call = WearHat string | UserLeft

fun do_call :: "'q Sdk \<Rightarrow> string \<Rightarrow> call \<Rightarrow> 'q WearAHat \<Rightarrow> 'q WearAHat" where
  "do_call sdk uid (WearHat hatId) s = snd (wearHat sdk hatId uid s)"
| "do_call sdk uid UserLeft s = snd (userLeft uid s)"

fun run_calls :: "'q Sdk \<Rightarrow> string \<Rightarrow> call list \<Rightarrow> 'q WearAHat \<Rightarrow> 'q WearAHat" where
  "run_calls sdk uid [] s = s"
| "run_calls sdk uid (c # cs) s = run_calls sdk uid cs (do_call sdk uid c s)"

text \<open>The hat actors of a user: the ids of the actors created with an attachment to that
  user; the live ones are those on which \<^verbatim>\<open>destroy()\<close> has not been called.\<close>

definition attached_to :: "string \<Rightarrow> 'q ActorLike \<Rightarrow> bool" where
  "attached_to uid a = (case attachment a of None \<Rightarrow> False | Some t \<Rightarrow> userId t = uid)"

definition hats_of :: "string \<Rightarrow> 'q WearAHat \<Rightarrow> nat list" where
  "hats_of uid s =
     filter (\<lambda>i. attached_to uid (actors (ctx s) ! i)) [0..<length (actors (ctx s))]"

definition live_hats :: "string \<Rightarrow> 'q WearAHat \<Rightarrow> nat list" where
  "live_hats uid s = filter (\<lambda>i. i \<notin> destroyed (ctx s)) (hats_of uid s)"

definition table_entry :: "string \<Rightarrow> 'q WearAHat \<Rightarrow> nat list" where
  "table_entry uid s = (case attachedHats s uid of None \<Rightarrow> [] | Some a \<Rightarrow> [a])"

text \<open>The invariant of the attachment table for one user: the live hat actors of the
  user are exactly the entry of the table, and only actors that exist were destroyed.\<close>

definition hat_inv :: "string \<Rightarrow> 'q WearAHat \<Rightarrow> bool" where
  "hat_inv uid s \<longleftrightarrow>
     live_hats uid s = table_entry uid s \<and>
     (\<forall>d \<in> destroyed (ctx s). d < length (actors (ctx s)))"

section \<open>showHatMenu\<close>

definition menu_button :: "nat \<Rightarrow> nat \<Rightarrow> string \<Rightarrow> real \<Rightarrow> 'q ActorLike" where
  "menu_button menu buttonMesh hatId y =
     no_fields
       \<lparr>parentId := Some menu,
        actor_name := Some hatId,
        meshId := Some buttonMesh,
        collider := Some Auto,
        local_position := Some \<lparr>vec_x = 0, vec_y = y, vec_z = 0\<rparr>\<rparr>"

definition menu_label :: "nat \<Rightarrow> string \<Rightarrow> real \<Rightarrow> 'q ActorLike" where
  "menu_label menu shown y =
     no_fields
       \<lparr>parentId := Some menu,
        actor_name := Some ''label'',
        actor_text := Some \<lparr>contents = Some shown, height = 0.5, anchor = MiddleLeft,
          color = None\<rparr>,
        local_position := Some \<lparr>vec_x = 0.5, vec_y = y, vec_z = 0\<rparr>\<rparr>"

text \<open>The label whose \<^verbatim>\<open>contents\<close> is \<^verbatim>\<open>undefined\<close>.\<close>

definition menu_label_undefined :: "nat \<Rightarrow> real \<Rightarrow> 'q ActorLike" where
  "menu_label_undefined menu y =
     no_fields
       \<lparr>parentId := Some menu,
        actor_name := Some ''label'',
        actor_text := Some \<lparr>contents = None, height = 0.5, anchor = MiddleLeft, color = None\<rparr>,
        local_position := Some \<lparr>vec_x = 0.5, vec_y = y, vec_z = 0\<rparr>\<rparr>"

definition menu_title :: "nat \<Rightarrow> real \<Rightarrow> 'q ActorLike" where
  "menu_title menu y =
     no_fields
       \<lparr>parentId := Some menu,
        actor_name := Some ''label'',
        actor_text := Some \<lparr>contents = Some (replicate 8 CHR '' '' @ ''Wear a Hat''),
          height = 0.8, anchor = MiddleCenter, color = Some Yellow\<rparr>,
        local_position := Some \<lparr>vec_x = 0.5, vec_y = y + 0.25, vec_z = 0\<rparr>\<rparr>"

text \<open>The \<^verbatim>\<open>for\<close> loop of \<^verbatim>\<open>showHatMenu\<close> over the keys that are left, with the
  current \<^verbatim>\<open>y\<close>.  It returns the exception, if any, the final \<^verbatim>\<open>y\<close> and the state.
  Reading \<^verbatim>\<open>displayName\<close> of an undefined record throws, after the button was
  created; an inherited value has no \<^verbatim>\<open>displayName\<close>.  The keys that \<^verbatim>\<open>showHatMenu\<close>
  passes are own properties of the catalog.\<close>

fun menu_loop ::
  "nat \<Rightarrow> nat \<Rightarrow> string list \<Rightarrow> real \<Rightarrow> 'q WearAHat \<Rightarrow> js_error option \<times> real \<times> 'q WearAHat" where
  "menu_loop menu buttonMesh [] y s = (None, y, s)"
| "menu_loop menu buttonMesh (hatId # rest) y s =
     (let (button, c1) = Actor_Create (menu_button menu buttonMesh hatId y) (ctx s);
          c2 = setBehavior_onClick button hatId c1
      in case read_property (lookup (HatDatabase s)) hatId of
           Undefined \<Rightarrow> (Some TypeError, y, s\<lparr>ctx := c2\<rparr>)
         | Inherited \<Rightarrow>
             let (label, c3) = Actor_Create (menu_label_undefined menu y) c2
             in menu_loop menu buttonMesh rest (y + 0.5) (s\<lparr>ctx := c3\<rparr>)
         | Own hatRecord \<Rightarrow>
             let (label, c3) = Actor_Create (menu_label menu (displayName hatRecord) y) c2
             in menu_loop menu buttonMesh rest (y + 0.5) (s\<lparr>ctx := c3\<rparr>))"

definition showHatMenu :: "'q WearAHat \<Rightarrow> js_error option \<times> 'q WearAHat" where
  "showHatMenu s =
     (let (menu, c1) = Actor_Create no_fields (ctx s);
          (buttonMesh, c2) = createBoxMesh ''button'' 0.3 0.3 0.01 c1
      in case menu_loop menu buttonMesh (Object_keys (HatDatabase s)) 0.3 (s\<lparr>ctx := c2\<rparr>) of
           (Some e, y, s1) \<Rightarrow> (Some e, s1)
         | (None, y, s1) \<Rightarrow>
             let (title, c3) = Actor_Create (menu_title menu y) (ctx s1)
             in (None, s1\<lparr>ctx := c3\<rparr>))"

text \<open>The vertical offset of an actor in its parent: the \<^verbatim>\<open>y\<close> of its local position;
  an actor created without a position sits at its parent's origin.\<close>

definition actor_y :: "'q ActorLike \<Rightarrow> real" where
  "actor_y a = (case local_position a of None \<Rightarrow> 0 | Some v \<Rightarrow> vec_y v)"

definition shown_text :: "'q ActorLike \<Rightarrow> string option" where
  "shown_text a = (case actor_text a of None \<Rightarrow> None | Some t \<Rightarrow> contents t)"

section \<open>preloadHats and the session's events\<close>

datatype promise = Pending | Fulfilled | Rejected

text \<open>One element of the array that \<^verbatim>\<open>preloadHats\<close> passes to \<^verbatim>\<open>Promise.all\<close>: the
  hat id the callbacks close over, the URL given to \<^verbatim>\<open>loadGltf\<close> (\<open>None\<close> for
  \<^verbatim>\<open>Promise.resolve()\<close>, which issues no request), and the state of the promise
  \<^verbatim>\<open>loadGltf(url).then(...).catch(...)\<close>.\<close>

record hat_promise =
  hp_hatId :: string
  hp_url :: "string option"
  hp_state :: promise

text \<open>A template literal prints \<^verbatim>\<open>undefined\<close> as the word.\<close>

definition template :: "string option \<Rightarrow> string" where
  "template v = (case v of None \<Rightarrow> ''undefined'' | Some s \<Rightarrow> s)"

text \<open>The promise that the callback in \<^verbatim>\<open>preloadHats\<close> returns for one catalog entry:
  \<^verbatim>\<open>loadGltf(url).then(...).catch(...)\<close>, pending, when \<^verbatim>\<open>resourceName\<close> is truthy, and
  \<^verbatim>\<open>Promise.resolve()\<close>, fulfilled, otherwise.\<close>

definition entry_promise :: "string \<Rightarrow> string \<times> HatDescriptor \<Rightarrow> hat_promise" where
  "entry_promise url e =
     (if truthy (resourceName (snd e))
      then \<lparr>hp_hatId = fst e,
            hp_url = Some (url @ ''/'' @ template (resourceName (snd e))),
            hp_state = Pending\<rparr>
      else \<lparr>hp_hatId = fst e, hp_url = None, hp_state = Fulfilled\<rparr>)"

text \<open>The callback of \<^verbatim>\<open>Object.keys(HatDatabase).map\<close>, run on the keys from left to
  right.  An exception in the callback leaves \<^verbatim>\<open>preloadHats\<close> at once; an inherited
  value has no \<^verbatim>\<open>resourceName\<close>, which gives \<^verbatim>\<open>Promise.resolve()\<close>.  The keys that
  \<^verbatim>\<open>preloadHats\<close> passes are own properties of the catalog.\<close>

fun preload_map :: "'q WearAHat \<Rightarrow> string list \<Rightarrow> js_error + hat_promise list" where
  "preload_map s [] = Inr []"
| "preload_map s (hatId # rest) =
     (case read_property (lookup (HatDatabase s)) hatId of
        Undefined \<Rightarrow> Inl TypeError
      | Inherited \<Rightarrow>
          (case preload_map s rest of
             Inl e \<Rightarrow> Inl e
           | Inr ps \<Rightarrow>
               Inr (\<lparr>hp_hatId = hatId, hp_url = None, hp_state = Fulfilled\<rparr> # ps))
      | Own hatRecord \<Rightarrow>
          (case preload_map s rest of
             Inl e \<Rightarrow> Inl e
           | Inr ps \<Rightarrow>
               Inr (entry_promise (baseUrl s) (hatId, hatRecord) # ps)))"

definition preloadHats :: "'q WearAHat \<Rightarrow> js_error + hat_promise list" where
  "preloadHats s = preload_map s (Object_keys (HatDatabase s))"

text \<open>The two callbacks of a load.  The first stores
  \<^verbatim>\<open>assets.find(a => a.prefab !== null)\<close> under the hat id: a prefab, or \<^verbatim>\<open>undefined\<close>
  when the result has none.  An assignment to the key \<^verbatim>\<open>__proto__\<close> creates no own
  property but goes to the inherited setter, which ignores \<^verbatim>\<open>undefined\<close> and keeps a
  prefab as the prototype of the table, where a read of that key finds it.  The second
  callback logs the error.\<close>

definition then_handler :: "string \<Rightarrow> Asset list \<Rightarrow> 'q WearAHat \<Rightarrow> 'q WearAHat" where
  "then_handler hatId assets s =
     (case find prefab_not_null assets of
        Some a \<Rightarrow>
          s\<lparr>prefabs := (prefabs s)(hatId \<mapsto> a),
            undefined_prefabs := undefined_prefabs s - {hatId}\<rparr>
      | None \<Rightarrow>
          if hatId = ''__proto__'' then s
          else s\<lparr>prefabs := (prefabs s)(hatId := None),
                 undefined_prefabs := insert hatId (undefined_prefabs s)\<rparr>)"

definition catch_handler :: "string \<Rightarrow> 'q WearAHat \<Rightarrow> 'q WearAHat" where
  "catch_handler e s = s\<lparr>error_log := error_log s @ [e]\<rparr>"

text \<open>\<^verbatim>\<open>Promise.all\<close>: rejected once an element is rejected, fulfilled once every element
  is fulfilled, pending otherwise.\<close>

definition Promise_all :: "promise list \<Rightarrow> promise" where
  "Promise_all ps =
     (if Rejected \<in> set ps then Rejected else if Pending \<in> set ps then Pending else Fulfilled)"

datatype phase = NotStarted | AwaitingPreload | MenuShown | StartFailed

record 'q Session =
  app :: "'q WearAHat"
  promises :: "hat_promise list"
  phase :: phase

definition settle :: "nat \<Rightarrow> 'q Session \<Rightarrow> 'q Session" where
  "settle i \<sigma> = \<sigma>\<lparr>promises := (promises \<sigma>)[i := (promises \<sigma> ! i)\<lparr>hp_state := Fulfilled\<rparr>]\<rparr>"

text \<open>The events the runtime dispatches, one at a time: the session starts
  (\<^verbatim>\<open>started\<close> runs up to its \<^verbatim>\<open>await\<close>); the load behind promise \<open>i\<close> succeeds with a
  list of assets or fails with an error; the awaited \<^verbatim>\<open>Promise.all\<close> is settled and
  \<^verbatim>\<open>started\<close> resumes; a user clicks a button; a user leaves.  \<open>step\<close> is \<open>None\<close> when
  the event cannot happen in the state.  An exception thrown by a click handler or by
  \<^verbatim>\<open>userLeft\<close> ends that handler; the state it leaves is the state of the next event.\<close>

datatype event =
    SessionStarted
  | LoadSucceeded nat "Asset list"
  | LoadFailed nat string
  | PreloadSettled
  | ButtonClicked nat string
  | UserLeftEvent string

fun step :: "'q Sdk \<Rightarrow> event \<Rightarrow> 'q Session \<Rightarrow> 'q Session option" where
  "step sdk SessionStarted \<sigma> =
     (if phase \<sigma> \<noteq> NotStarted then None
      else case preloadHats (app \<sigma>) of
             Inl e \<Rightarrow> Some (\<sigma>\<lparr>phase := StartFailed\<rparr>)
           | Inr ps \<Rightarrow> Some (\<sigma>\<lparr>promises := ps, phase := AwaitingPreload\<rparr>))"
| "step sdk (LoadSucceeded i assets) \<sigma> =
     (if i < length (promises \<sigma>) \<and> hp_state (promises \<sigma> ! i) = Pending
      then Some (settle i (\<sigma>\<lparr>app := then_handler (hp_hatId (promises \<sigma> ! i)) assets (app \<sigma>)\<rparr>))
      else None)"
| "step sdk (LoadFailed i e) \<sigma> =
     (if i < length (promises \<sigma>) \<and> hp_state (promises \<sigma> ! i) = Pending
      then Some (settle i (\<sigma>\<lparr>app := catch_handler e (app \<sigma>)\<rparr>))
      else None)"
| "step sdk PreloadSettled \<sigma> =
     (if phase \<sigma> \<noteq> AwaitingPreload then None
      else case Promise_all (map hp_state (promises \<sigma>)) of
             Pending \<Rightarrow> None
           | Rejected \<Rightarrow> Some (\<sigma>\<lparr>phase := StartFailed\<rparr>)
           | Fulfilled \<Rightarrow>
               (case showHatMenu (app \<sigma>) of
                  (None, s1) \<Rightarrow> Some (\<sigma>\<lparr>app := s1, phase := MenuShown\<rparr>)
                | (Some e, s1) \<Rightarrow> Some (\<sigma>\<lparr>app := s1, phase := StartFailed\<rparr>)))"
| "step sdk (ButtonClicked b uid) \<sigma> =
     (case map_of (clickHandlers (ctx (app \<sigma>))) b of
        None \<Rightarrow> None
      | Some hatId \<Rightarrow> Some (\<sigma>\<lparr>app := snd (wearHat sdk hatId uid (app \<sigma>))\<rparr>))"
| "step sdk (UserLeftEvent uid) \<sigma> = Some (\<sigma>\<lparr>app := snd (userLeft uid (app \<sigma>))\<rparr>)"

fun run :: "'q Sdk \<Rightarrow> event list \<Rightarrow> 'q Session \<Rightarrow> 'q Session option" where
  "run sdk [] \<sigma> = Some \<sigma>"
| "run sdk (e # es) \<sigma> = (case step sdk e \<sigma> of None \<Rightarrow> None | Some \<sigma>1 \<Rightarrow> run sdk es \<sigma>1)"

text \<open>The constructor: empty tables, and a context in which nothing was created yet.\<close>

definition new_WearAHat :: "HatDatabase \<Rightarrow> string \<Rightarrow> 'q WearAHat" where
  "new_WearAHat db url =
     \<lparr>HatDatabase = db, baseUrl = url,
      ctx = \<lparr>actors = [], destroyed = {}, clickHandlers = [], meshes = []\<rparr>,
      prefabs = Map.empty, undefined_prefabs = {}, attachedHats = Map.empty,
      error_log = []\<rparr>"

definition new_Session :: "HatDatabase \<Rightarrow> string \<Rightarrow> 'q Session" where
  "new_Session db url = \<lparr>app = new_WearAHat db url, promises = [], phase = NotStarted\<rparr>"

text \<open>A hat id has a resource when the catalog has a descriptor for it whose
  \<^verbatim>\<open>resourceName\<close> is truthy.  The loads are settled when the promise of every hat is
  fulfilled.\<close>

definition has_resource :: "HatDatabase \<Rightarrow> string \<Rightarrow> bool" where
  "has_resource db hatId =
     (case lookup db hatId of None \<Rightarrow> False | Some r \<Rightarrow> truthy (resourceName r))"

definition loads_settled :: "'q Session \<Rightarrow> bool" where
  "loads_settled \<sigma> = list_all (\<lambda>p. hp_state p = Fulfilled) (promises \<sigma>)"

text \<open>Two invariants of the states that the events reach.  The first: no promise of a
  hat is rejected; before the session starts there is none; no click handler is registered
  before the menu is built; and once \<^verbatim>\<open>started\<close> has resumed, the loads are settled.
  The second: the catalog is the one the session was created with, every pending load is
  for a hat id with a resource, and so is every entry of the prefab table.\<close>

definition session_inv :: "'q Session \<Rightarrow> bool" where
  "session_inv \<sigma> \<longleftrightarrow>
     (\<forall>p \<in> set (promises \<sigma>). hp_state p \<noteq> Rejected) \<and>
     (phase \<sigma> = NotStarted \<longrightarrow> promises \<sigma> = []) \<and>
     (phase \<sigma> = NotStarted \<or> phase \<sigma> = AwaitingPreload \<longrightarrow>
        clickHandlers (ctx (app \<sigma>)) = []) \<and>
     (phase \<sigma> = MenuShown \<or> phase \<sigma> = StartFailed \<longrightarrow> loads_settled \<sigma>)"

definition prefabs_inv :: "HatDatabase \<Rightarrow> 'q Session \<Rightarrow> bool" where
  "prefabs_inv db \<sigma> \<longleftrightarrow>
     HatDatabase (app \<sigma>) = db \<and>
     (\<forall>p \<in> set (promises \<sigma>). hp_state p = Pending \<longrightarrow> has_resource db (hp_hatId p)) \<and>
     (\<forall>k. prefabs (app \<sigma>) k \<noteq> None \<longrightarrow> has_resource db k)"

text \<open>A third invariant: the promises are for distinct hat ids, every entry of the prefab
  table was stored by a promise that is now fulfilled, and before the session starts
  there is no promise.\<close>

definition loads_inv :: "'q Session \<Rightarrow> bool" where
  "loads_inv \<sigma> \<longleftrightarrow>
     distinct (map hp_hatId (promises \<sigma>)) \<and>
     (\<forall>k. prefabs (app \<sigma>) k \<noteq> None \<longrightarrow>
        (\<exists>p \<in> set (promises \<sigma>). hp_hatId p = k \<and> hp_state p = Fulfilled)) \<and>
     (phase \<sigma> = NotStarted \<longrightarrow> promises \<sigma> = [])"

section \<open>A concrete catalog\<close>

text \<open>The catalog of the specification's scenario, a ``none'' entry and a cap, and an SDK
  whose quaternions are the triples of the angles they were made from and whose
  \<^verbatim>\<open>CreateFromPrefab\<close> throws when it is given no prefab id.\<close>

definition example_sdk :: "(real \<times> real \<times> real) Sdk" where
  "example_sdk =
     \<lparr>DegreesToRadians = pi / 180, FromEulerAngles = (\<lambda>x y z. (x, y, z)),
      CreateFromPrefab_without_id = Some SdkError\<rparr>"

definition none_hat :: HatDescriptor where
  "none_hat =
     \<lparr>displayName = ''None'', resourceName = Some [],
      scale = \<lparr>vec_x = 1, vec_y = 1, vec_z = 1\<rparr>,
      rotation = \<lparr>vec_x = 0, vec_y = 0, vec_z = 0\<rparr>,
      position = \<lparr>vec_x = 0, vec_y = 0, vec_z = 0\<rparr>\<rparr>"

definition cap_hat :: HatDescriptor where
  "cap_hat =
     \<lparr>displayName = ''Cap'', resourceName = Some ''cap.glb'',
      scale = \<lparr>vec_x = 1, vec_y = 1, vec_z = 1\<rparr>,
      rotation = \<lparr>vec_x = 90, vec_y = 180, vec_z = 0\<rparr>,
      position = \<lparr>vec_x = 0, vec_y = 0.1, vec_z = 0\<rparr>\<rparr>"

definition example_db :: HatDatabase where
  "example_db = [(''none'', none_hat), (''cap'', cap_hat)]"

text \<open>A catalog that declares the ``none'' entry first and then a hat under the key
  \<open>1\<close>.\<close>

definition numbered_db :: HatDatabase where
  "numbered_db = [(''none'', none_hat), (''1'', cap_hat)]"

definition numbered_app :: "(real \<times> real \<times> real) WearAHat" where
  "numbered_app = new_WearAHat numbered_db ''http://host/public''"

definition example_app :: "(real \<times> real \<times> real) WearAHat" where
  "example_app = new_WearAHat example_db ''http://host/public''"

definition cap_asset :: Asset where
  "cap_asset = \<lparr>asset_id = ''asset-cap'', prefab_not_null = True\<rparr>"

text \<open>The application after the cap was preloaded, and after user \<open>U\<close> then clicked the
  cap's button.\<close>

definition example_loaded :: "(real \<times> real \<times> real) WearAHat" where
  "example_loaded = example_app\<lparr>prefabs := [''cap'' \<mapsto> cap_asset]\<rparr>"

definition example_worn :: "(real \<times> real \<times> real) WearAHat" where
  "example_worn = snd (wearHat example_sdk ''cap'' ''U'' example_loaded)"

definition example_session :: "(real \<times> real \<times> real) Session" where
  "example_session = new_Session example_db ''http://host/public''"

text \<open>The session after it has started and the load of the cap was issued, and a run: the
  session starts, the cap is loaded, \<^verbatim>\<open>started\<close> resumes and builds the menu, and user
  \<open>U\<close> clicks the cap's button, which is actor 3.\<close>

definition example_started :: "(real \<times> real \<times> real) Session" where
  "example_started =
     example_session
       \<lparr>promises := map (entry_promise ''http://host/public'') example_db,
        phase := AwaitingPreload\<rparr>"

definition example_events :: "event list" where
  "example_events =
     [SessionStarted, LoadSucceeded 1 [cap_asset], PreloadSettled, ButtonClicked 3 ''U'']"

section \<open>Basic facts about userLeft and wearHat\<close>

lemma set_Object_entries [simp]: "set (Object_entries obj) = set obj"
  by (auto simp: Object_entries_def)

lemma lookup_Object_keys:
  assumes "lookup obj k = Some v"
  shows "k \<in> set (Object_keys obj)"
proof -
  have "(k, v) \<in> set obj"
    using assms by (simp add: lookup_def map_of_SomeD)
  then have "fst (k, v) \<in> fst ` set (Object_entries obj)"
    by (simp only: set_Object_entries) (rule imageI)
  then show ?thesis
    by (simp add: Object_keys_def)
qed

lemma read_property_cases:
  "read_property own k = Own v \<longleftrightarrow> own k = Some v"
  "read_property own k = Inherited \<longleftrightarrow> own k = None \<and> k \<in> set Object_prototype_keys"
  "read_property own k = Undefined \<longleftrightarrow> own k = None \<and> k \<notin> set Object_prototype_keys"
  by (simp_all add: read_property_def split: option.splits)

lemma destroy_attached_fst:
  "fst (destroy_attached u s) =
     (if attachedHats s u = None \<and> u \<in> set Object_prototype_keys then Some TypeError else None)"
  by (simp add: destroy_attached_def read_property_def split: option.splits)

lemma destroy_attached_snd:
  "snd (destroy_attached u s) =
     (case attachedHats s u of
        None \<Rightarrow> s
      | Some a \<Rightarrow> s\<lparr>ctx := destroy a (ctx s), attachedHats := (attachedHats s)(u := None)\<rparr>)"
proof (cases "attachedHats s u")
  case None
  then have "(attachedHats s)(u := None) = attachedHats s"
    by (simp add: fun_upd_idem)
  then show ?thesis
    using None by (simp add: destroy_attached_def read_property_def)
next
  case (Some a)
  then show ?thesis
    by (simp add: destroy_attached_def read_property_def)
qed

lemma destroy_attached_pair:
  "destroy_attached u s = (fst (destroy_attached u s), snd (destroy_attached u s))"
  by simp

lemma destroy_attached_table [simp]:
  "attachedHats (snd (destroy_attached u s)) = (attachedHats s)(u := None)"
  by (simp add: destroy_attached_snd fun_upd_idem split: option.splits)

lemma destroy_attached_actors [simp]:
  "actors (ctx (snd (destroy_attached u s))) = actors (ctx s)"
  by (simp add: destroy_attached_snd destroy_def split: option.splits)

lemma destroy_attached_destroyed:
  "destroyed (ctx (snd (destroy_attached u s))) =
     (case attachedHats s u of None \<Rightarrow> destroyed (ctx s) | Some a \<Rightarrow> insert a (destroyed (ctx s)))"
  by (simp add: destroy_attached_snd destroy_def split: option.splits)

lemma destroy_attached_frame [simp]:
  "HatDatabase (snd (destroy_attached u s)) = HatDatabase s"
  "prefabs (snd (destroy_attached u s)) = prefabs s"
  "undefined_prefabs (snd (destroy_attached u s)) = undefined_prefabs s"
  "baseUrl (snd (destroy_attached u s)) = baseUrl s"
  "error_log (snd (destroy_attached u s)) = error_log s"
  by (simp_all add: destroy_attached_snd split: option.splits)

lemma destroy_attached_absent:
  assumes "attachedHats s u = None"
  shows "snd (destroy_attached u s) = s"
  using assms by (simp add: destroy_attached_snd)

lemma destroy_attached_handlers [simp]:
  "clickHandlers (ctx (snd (destroy_attached u s))) = clickHandlers (ctx s)"
  by (simp add: destroy_attached_snd destroy_def split: option.splits)

text \<open>The two outcomes of the last statement of \<^verbatim>\<open>wearHat\<close>.\<close>

lemma attach_new_cases:
  "(\<exists>e. attach_new sdk pid r u s = (Some e, s)) \<or>
   attach_new sdk pid r u s =
     (None, s\<lparr>ctx := (ctx s)\<lparr>actors := actors (ctx s) @ [(hat_actor sdk r u)\<lparr>prefabId := pid\<rparr>]\<rparr>,
              attachedHats := (attachedHats s)(u \<mapsto> length (actors (ctx s)))\<rparr>)"
  by (cases pid; cases "CreateFromPrefab_without_id sdk")
    (simp_all add: attach_new_def Actor_CreateFromPrefab_def Actor_Create_def)

lemma attach_new_Some:
  "attach_new sdk (Some i) r u s =
     (None, s\<lparr>ctx := (ctx s)\<lparr>actors := actors (ctx s) @ [(hat_actor sdk r u)\<lparr>prefabId := Some i\<rparr>]\<rparr>,
              attachedHats := (attachedHats s)(u \<mapsto> length (actors (ctx s)))\<rparr>)"
  by (simp add: attach_new_def Actor_CreateFromPrefab_def Actor_Create_def)

lemma attach_new_None:
  "fst (attach_new sdk None r u s) = CreateFromPrefab_without_id sdk"
  by (cases "CreateFromPrefab_without_id sdk")
    (simp_all add: attach_new_def Actor_CreateFromPrefab_def Actor_Create_def)

lemma attach_new_globals [simp]:
  "HatDatabase (snd (attach_new sdk pid r u s)) = HatDatabase s"
  "prefabs (snd (attach_new sdk pid r u s)) = prefabs s"
  "undefined_prefabs (snd (attach_new sdk pid r u s)) = undefined_prefabs s"
  "baseUrl (snd (attach_new sdk pid r u s)) = baseUrl s"
  "error_log (snd (attach_new sdk pid r u s)) = error_log s"
  "clickHandlers (ctx (snd (attach_new sdk pid r u s))) = clickHandlers (ctx s)"
  "destroyed (ctx (snd (attach_new sdk pid r u s))) = destroyed (ctx s)"
  using attach_new_cases [of sdk pid r u s] by auto

lemma attach_new_other [simp]:
  "v \<noteq> u \<Longrightarrow> attachedHats (snd (attach_new sdk pid r u s)) v = attachedHats s v"
  using attach_new_cases [of sdk pid r u s] by auto

text \<open>\<^verbatim>\<open>wearHat\<close> when its first statement throws, and when it does not.\<close>

lemma wearHat_first_throws:
  assumes "attachedHats s u = None" and "u \<in> set Object_prototype_keys"
  shows "wearHat sdk hatId u s = (Some TypeError, s)"
  using assms by (simp add: wearHat_def destroy_attached_def read_property_def)

lemma wearHat_rest:
  assumes "attachedHats s u \<noteq> None \<or> u \<notin> set Object_prototype_keys"
  shows "wearHat sdk hatId u s =
     (case read_property (lookup (HatDatabase s)) hatId of
        Undefined \<Rightarrow> (Some TypeError, snd (destroy_attached u s))
      | Inherited \<Rightarrow> (None, snd (destroy_attached u s))
      | Own hatRecord \<Rightarrow>
          if \<not> truthy (resourceName hatRecord) then (None, snd (destroy_attached u s))
          else
            (case read_prefab s hatId of
               Undefined \<Rightarrow> (Some TypeError, snd (destroy_attached u s))
             | Inherited \<Rightarrow> attach_new sdk None hatRecord u (snd (destroy_attached u s))
             | Own p \<Rightarrow>
                 attach_new sdk (Some (asset_id p)) hatRecord u (snd (destroy_attached u s))))"
proof -
  have "fst (destroy_attached u s) = None"
    using assms by (auto simp: destroy_attached_fst)
  then have "destroy_attached u s = (None, snd (destroy_attached u s))"
    by (metis prod.collapse)
  then obtain s2 where d: "destroy_attached u s = (None, s2)" and s2: "s2 = snd (destroy_attached u s)"
    by simp
  have g: "HatDatabase s2 = HatDatabase s" "read_prefab s2 hatId = read_prefab s hatId"
    by (simp_all add: s2 read_prefab_def)
  show ?thesis
    unfolding s2 [symmetric] by (simp add: wearHat_def d g split: property.splits)
qed

lemma wearHat_globals [simp]:
  "HatDatabase (snd (wearHat sdk hatId u s)) = HatDatabase s"
  "prefabs (snd (wearHat sdk hatId u s)) = prefabs s"
  "undefined_prefabs (snd (wearHat sdk hatId u s)) = undefined_prefabs s"
  "baseUrl (snd (wearHat sdk hatId u s)) = baseUrl s"
  "error_log (snd (wearHat sdk hatId u s)) = error_log s"
proof -
  show "undefined_prefabs (snd (wearHat sdk hatId u s)) = undefined_prefabs s"
    by (cases "attachedHats s u = None \<and> u \<in> set Object_prototype_keys")
      (simp_all add: wearHat_first_throws wearHat_rest split: property.splits)
  show "HatDatabase (snd (wearHat sdk hatId u s)) = HatDatabase s"
    by (cases "attachedHats s u = None \<and> u \<in> set Object_prototype_keys")
      (simp_all add: wearHat_first_throws wearHat_rest split: property.splits)
  show "prefabs (snd (wearHat sdk hatId u s)) = prefabs s"
    by (cases "attachedHats s u = None \<and> u \<in> set Object_prototype_keys")
      (simp_all add: wearHat_first_throws wearHat_rest split: property.splits)
  show "baseUrl (snd (wearHat sdk hatId u s)) = baseUrl s"
    by (cases "attachedHats s u = None \<and> u \<in> set Object_prototype_keys")
      (simp_all add: wearHat_first_throws wearHat_rest split: property.splits)
  show "error_log (snd (wearHat sdk hatId u s)) = error_log s"
    by (cases "attachedHats s u = None \<and> u \<in> set Object_prototype_keys")
      (simp_all add: wearHat_first_throws wearHat_rest split: property.splits)
qed

lemma wearHat_handlers [simp]:
  "clickHandlers (ctx (snd (wearHat sdk hatId u s))) = clickHandlers (ctx s)"
  by (cases "attachedHats s u = None \<and> u \<in> set Object_prototype_keys")
    (simp_all add: wearHat_first_throws wearHat_rest split: property.splits)

lemma wearHat_destroyed:
  "destroyed (ctx (snd (wearHat sdk hatId u s))) = destroyed (ctx (snd (destroy_attached u s)))"
  by (cases "attachedHats s u = None \<and> u \<in> set Object_prototype_keys")
    (simp_all add: wearHat_first_throws wearHat_rest destroy_attached_absent
      split: property.splits)

lemma wearHat_other:
  "v \<noteq> u \<Longrightarrow> attachedHats (snd (wearHat sdk hatId u s)) v = attachedHats s v"
  by (cases "attachedHats s u = None \<and> u \<in> set Object_prototype_keys")
    (simp_all add: wearHat_first_throws wearHat_rest split: property.splits)

lemma wearHat_create:
  assumes "lookup (HatDatabase s) hatId = Some hatRecord"
    and "truthy (resourceName hatRecord)"
    and "prefabs s hatId = Some p"
    and "attachedHats s u \<noteq> None \<or> u \<notin> set Object_prototype_keys"
  shows "wearHat sdk hatId u s =
     (None, (snd (destroy_attached u s))
        \<lparr>ctx := (ctx (snd (destroy_attached u s)))
           \<lparr>actors := actors (ctx (snd (destroy_attached u s))) @
              [(hat_actor sdk hatRecord u)\<lparr>prefabId := Some (asset_id p)\<rparr>]\<rparr>,
         attachedHats := (attachedHats (snd (destroy_attached u s)))
              (u \<mapsto> length (actors (ctx (snd (destroy_attached u s)))))\<rparr>)"
  using assms(1-3)
  by (simp add: wearHat_rest [OF assms(4)] read_property_def read_prefab_def attach_new_Some)

lemma wearHat_no_create:
  assumes "lookup (HatDatabase s) hatId = None \<or>
           (\<exists>r. lookup (HatDatabase s) hatId = Some r \<and>
                (\<not> truthy (resourceName r) \<or>
                 prefabs s hatId = None \<and> hatId \<notin> set Object_prototype_keys))"
  shows "snd (wearHat sdk hatId u s) = snd (destroy_attached u s)"
proof (cases "attachedHats s u = None \<and> u \<in> set Object_prototype_keys")
  case True
  then show ?thesis
    by (simp add: wearHat_first_throws destroy_attached_absent)
next
  case False
  then have ok: "attachedHats s u \<noteq> None \<or> u \<notin> set Object_prototype_keys"
    by auto
  show ?thesis
    using assms by (auto simp: wearHat_rest [OF ok] read_property_def read_prefab_def)
qed

text \<open>When the prefab table has no own property for a hat whose id is the name of an
  inherited property, such as the catalog key \<^verbatim>\<open>constructor\<close> of a hat whose load
  failed, \<^verbatim>\<open>wearHat\<close> gets no \<^verbatim>\<open>TypeError\<close> from reading the prefab's \<^verbatim>\<open>id\<close>: it calls
  \<^verbatim>\<open>CreateFromPrefab\<close> without a prefab id, and what happens is up to the SDK.\<close>

lemma wearHat_inherited_prefab:
  assumes "lookup (HatDatabase s) hatId = Some hatRecord"
    and "truthy (resourceName hatRecord)"
    and "prefabs s hatId = None"
    and "hatId \<notin> undefined_prefabs s"
    and "hatId \<in> set Object_prototype_keys"
    and "u \<notin> set Object_prototype_keys"
  shows "fst (wearHat sdk hatId u s) = CreateFromPrefab_without_id sdk"
proof -
  have ok: "attachedHats s u \<noteq> None \<or> u \<notin> set Object_prototype_keys"
    using assms(6) by simp
  show ?thesis
    using assms(1-5)
    by (simp add: wearHat_rest [OF ok] read_property_def read_prefab_def attach_new_None)
qed

text \<open>When the load of such a hat succeeded with a result that has no prefab, the table
  has an own property that holds \<^verbatim>\<open>undefined\<close>, and reading its \<^verbatim>\<open>id\<close> throws.\<close>

lemma wearHat_undefined_prefab:
  assumes "lookup (HatDatabase s) hatId = Some hatRecord"
    and "truthy (resourceName hatRecord)"
    and "prefabs s hatId = None"
    and "hatId \<in> undefined_prefabs s"
  shows "fst (wearHat sdk hatId u s) = Some TypeError"
proof (cases "attachedHats s u = None \<and> u \<in> set Object_prototype_keys")
  case True
  then show ?thesis
    by (simp add: wearHat_first_throws)
next
  case False
  then have ok: "attachedHats s u \<noteq> None \<or> u \<notin> set Object_prototype_keys"
    by auto
  show ?thesis
    using assms by (simp add: wearHat_rest [OF ok] read_property_def read_prefab_def)
qed

text \<open>Claim C3, amended.  For every user \<open>u\<close>: when \<open>u\<close> has no entry in the attachment
  table, \<^verbatim>\<open>userLeft(u)\<close> leaves the whole state as it is; calling it twice in a row leaves
  the same state as calling it once; and in every case the table has no entry for \<open>u\<close>
  afterwards.  When the id of \<open>u\<close> is not the name of a property that objects inherit
  from \<^verbatim>\<open>Object.prototype\<close>, no exception is thrown, and the second of two calls
  returns what the first returned.  When the id is such a name and \<open>u\<close> has no entry,
  \<^verbatim>\<open>userLeft(u)\<close> throws a \<^verbatim>\<open>TypeError\<close>.\<close>

theorem userLeft_idempotent:
  "(attachedHats s u = None \<longrightarrow> snd (userLeft u s) = s) \<and>
   snd (userLeft u (snd (userLeft u s))) = snd (userLeft u s) \<and>
   attachedHats (snd (userLeft u s)) u = None \<and>
   (u \<notin> set Object_prototype_keys \<longrightarrow>
      fst (userLeft u s) = None \<and> userLeft u (snd (userLeft u s)) = userLeft u s) \<and>
   (u \<in> set Object_prototype_keys \<and> attachedHats s u = None \<longrightarrow>
      userLeft u s = (Some TypeError, s))"
proof -
  have a: "attachedHats s u = None \<longrightarrow> snd (userLeft u s) = s"
    by (simp add: userLeft_def destroy_attached_absent)
  have c: "attachedHats (snd (userLeft u s)) u = None"
    by (simp add: userLeft_def)
  have b: "snd (userLeft u (snd (userLeft u s))) = snd (userLeft u s)"
    using c by (simp add: userLeft_def destroy_attached_absent)
  have d: "fst (userLeft u s) = None \<and> userLeft u (snd (userLeft u s)) = userLeft u s"
    if "u \<notin> set Object_prototype_keys"
  proof -
    have "fst (userLeft u t) = None" for t :: "'a WearAHat"
      using that by (simp add: userLeft_def destroy_attached_fst)
    then show ?thesis
      using b by (metis prod.collapse)
  qed
  have e: "userLeft u s = (Some TypeError, s)"
    if "u \<in> set Object_prototype_keys" "attachedHats s u = None"
    using that by (simp add: userLeft_def destroy_attached_def read_property_def)
  show ?thesis
    using a b c d e by blast
qed

text \<open>Claim C4.  When user \<open>u\<close> wears hat instance \<open>a\<close> and \<^verbatim>\<open>wearHat\<close> is called with a
  catalog entry whose \<^verbatim>\<open>resourceName\<close> is empty or absent, the call returns normally,
  \<open>a\<close> is destroyed, the attachment table has no entry for \<open>u\<close>, and no actor was
  created.\<close>

theorem wearHat_none_clears:
  assumes "attachedHats s u = Some a"
    and "lookup (HatDatabase s) hatId = Some hatRecord"
    and "\<not> truthy (resourceName hatRecord)"
  shows "fst (wearHat sdk hatId u s) = None \<and>
         a \<in> destroyed (ctx (snd (wearHat sdk hatId u s))) \<and>
         attachedHats (snd (wearHat sdk hatId u s)) u = None \<and>
         actors (ctx (snd (wearHat sdk hatId u s))) = actors (ctx s)"
proof -
  have ok: "attachedHats s u \<noteq> None \<or> u \<notin> set Object_prototype_keys"
    using assms(1) by simp
  show ?thesis
    using assms
    by (simp add: wearHat_rest [OF ok] read_property_def destroy_attached_destroyed)
qed

text \<open>Claim C9, amended.  Let \<open>hatId\<close> be no key of the catalog.  When \<open>hatId\<close> is not the
  name of a property that objects inherit from \<^verbatim>\<open>Object.prototype\<close> either,
  \<^verbatim>\<open>wearHat\<close> throws a \<^verbatim>\<open>TypeError\<close>.  When it is such a name, the inherited value is
  read, which has no \<^verbatim>\<open>resourceName\<close>, and \<^verbatim>\<open>wearHat\<close> returns without an error, for a
  user whose id is not such a name.  In both cases the state that \<^verbatim>\<open>wearHat\<close> leaves is
  the one after its first two statements: the user's previous hat instance, if any, is
  destroyed and the table has no entry for the user.\<close>

theorem wearHat_unknown_hat_throws:
  assumes "lookup (HatDatabase s) hatId = None"
  shows "(hatId \<notin> set Object_prototype_keys \<longrightarrow> fst (wearHat sdk hatId u s) = Some TypeError) \<and>
         (hatId \<in> set Object_prototype_keys \<and> u \<notin> set Object_prototype_keys \<longrightarrow>
            fst (wearHat sdk hatId u s) = None) \<and>
         snd (wearHat sdk hatId u s) = snd (destroy_attached u s) \<and>
         attachedHats (snd (wearHat sdk hatId u s)) u = None \<and>
         (\<forall>a. attachedHats s u = Some a \<longrightarrow> a \<in> destroyed (ctx (snd (wearHat sdk hatId u s))))"
proof (cases "attachedHats s u = None \<and> u \<in> set Object_prototype_keys")
  case True
  then show ?thesis
    by (simp add: wearHat_first_throws destroy_attached_absent)
next
  case False
  then have ok: "attachedHats s u \<noteq> None \<or> u \<notin> set Object_prototype_keys"
    by auto
  show ?thesis
    using assms
    by (auto simp: wearHat_rest [OF ok] read_property_def destroy_attached_destroyed)
qed

text \<open>Claim C1, amended.  Let no key of the catalog be the name of a property that objects
  inherit from \<^verbatim>\<open>Object.prototype\<close>.  When the descriptor of \<open>hatId\<close> has a non-empty
  \<^verbatim>\<open>resourceName\<close> and the prefab table has no entry for \<open>hatId\<close>, \<^verbatim>\<open>wearHat\<close> creates
  no actor and records no entry in the attachment table for the user, but it is not a
  silent no-op: it throws a \<^verbatim>\<open>TypeError\<close>, and the state it leaves is the one after the
  destroy-and-remove of its first two statements.\<close>

theorem wearHat_missing_prefab_throws:
  assumes "lookup (HatDatabase s) hatId = Some hatRecord"
    and "truthy (resourceName hatRecord)"
    and "prefabs s hatId = None"
    and "\<forall>k \<in> set (Object_keys (HatDatabase s)). k \<notin> set Object_prototype_keys"
  shows "fst (wearHat sdk hatId u s) = Some TypeError \<and>
         snd (wearHat sdk hatId u s) = snd (destroy_attached u s) \<and>
         actors (ctx (snd (wearHat sdk hatId u s))) = actors (ctx s) \<and>
         attachedHats (snd (wearHat sdk hatId u s)) u = None"
proof -
  have own: "hatId \<notin> set Object_prototype_keys"
    using assms(4) lookup_Object_keys [OF assms(1)] by blast
  show ?thesis
  proof (cases "attachedHats s u = None \<and> u \<in> set Object_prototype_keys")
    case True
    then show ?thesis
      by (simp add: wearHat_first_throws destroy_attached_absent)
  next
    case False
    then have ok: "attachedHats s u \<noteq> None \<or> u \<notin> set Object_prototype_keys"
      by auto
    show ?thesis
      using assms(1-3) own
      by (simp add: wearHat_rest [OF ok] read_property_def read_prefab_def)
  qed
qed

text \<open>Claim C10.  For users \<open>v \<noteq> u\<close>, neither \<^verbatim>\<open>wearHat(hatId, u)\<close> nor \<^verbatim>\<open>userLeft(u)\<close>
  changes the attachment table's entry for \<open>v\<close>, and neither changes the catalog or the
  prefab table, that is, the prefabs stored and the keys that hold \<^verbatim>\<open>undefined\<close>,
  whether the call returns or throws.\<close>

theorem wearHat_frame:
  assumes "v \<noteq> u"
  shows "attachedHats (snd (wearHat sdk hatId u s)) v = attachedHats s v \<and>
         attachedHats (snd (userLeft u s)) v = attachedHats s v \<and>
         HatDatabase (snd (wearHat sdk hatId u s)) = HatDatabase s \<and>
         prefabs (snd (wearHat sdk hatId u s)) = prefabs s \<and>
         undefined_prefabs (snd (wearHat sdk hatId u s)) = undefined_prefabs s \<and>
         HatDatabase (snd (userLeft u s)) = HatDatabase s \<and>
         prefabs (snd (userLeft u s)) = prefabs s \<and>
         undefined_prefabs (snd (userLeft u s)) = undefined_prefabs s"
  using assms by (simp add: wearHat_other userLeft_def)

text \<open>Claim C7, amended.  When the descriptor of \<open>hatId\<close> has a non-empty \<^verbatim>\<open>resourceName\<close>,
  the prefab table holds prefab \<open>p\<close> for \<open>hatId\<close>, and the id of user \<open>u\<close> is not the name
  of a property that objects inherit from \<^verbatim>\<open>Object.prototype\<close>, \<^verbatim>\<open>wearHat(hatId, u)\<close>
  returns normally and creates exactly one new actor: instantiated from \<open>p\<close>, with the
  descriptor's position and scale as local position and scale, with the quaternion that
  the SDK builds from the descriptor's three Euler angles, each multiplied by
  \<^verbatim>\<open>DegreesToRadians\<close> and passed in the order x, y, z, as local rotation, and attached
  to the head of user \<open>u\<close>.  The attachment table maps \<open>u\<close> to the new actor.\<close>

theorem wearHat_attaches:
  assumes "lookup (HatDatabase s) hatId = Some hatRecord"
    and "truthy (resourceName hatRecord)"
    and "prefabs s hatId = Some p"
    and "u \<notin> set Object_prototype_keys"
  shows "fst (wearHat sdk hatId u s) = None \<and>
         length (actors (ctx (snd (wearHat sdk hatId u s)))) = Suc (length (actors (ctx s))) \<and>
         take (length (actors (ctx s))) (actors (ctx (snd (wearHat sdk hatId u s)))) =
           actors (ctx s) \<and>
         attachedHats (snd (wearHat sdk hatId u s)) u = Some (length (actors (ctx s))) \<and>
         prefabId (actors (ctx (snd (wearHat sdk hatId u s))) ! length (actors (ctx s))) =
           Some (asset_id p) \<and>
         local_position (actors (ctx (snd (wearHat sdk hatId u s))) ! length (actors (ctx s))) =
           Some (position hatRecord) \<and>
         local_rotation (actors (ctx (snd (wearHat sdk hatId u s))) ! length (actors (ctx s))) =
           Some (FromEulerAngles sdk
                  (vec_x (rotation hatRecord) * DegreesToRadians sdk)
                  (vec_y (rotation hatRecord) * DegreesToRadians sdk)
                  (vec_z (rotation hatRecord) * DegreesToRadians sdk)) \<and>
         local_scale (actors (ctx (snd (wearHat sdk hatId u s))) ! length (actors (ctx s))) =
           Some (scale hatRecord) \<and>
         attachment (actors (ctx (snd (wearHat sdk hatId u s))) ! length (actors (ctx s))) =
           Some \<lparr>attachPoint = ''head'', userId = u\<rparr>"
proof -
  have ok: "attachedHats s u \<noteq> None \<or> u \<notin> set Object_prototype_keys"
    using assms(4) by simp
  show ?thesis
    by (simp add: wearHat_create [OF assms(1-3) ok] hat_actor_def)
qed

section \<open>The attachment invariant\<close>

lemma hats_of_destroy_attached [simp]:
  "hats_of u (snd (destroy_attached v s)) = hats_of u s"
  by (simp add: hats_of_def)

lemma set_live_hats:
  "set (live_hats u s) = {i \<in> set (hats_of u s). i \<notin> destroyed (ctx s)}"
  by (auto simp: live_hats_def)

lemma hats_of_bound: "i \<in> set (hats_of u s) \<Longrightarrow> i < length (actors (ctx s))"
  by (simp add: hats_of_def)

lemma table_entry_bound:
  assumes "hat_inv u s" and "attachedHats s u = Some a"
  shows "a \<in> set (hats_of u s) \<and> a \<notin> destroyed (ctx s) \<and> a < length (actors (ctx s))"
proof -
  have "a \<in> set (live_hats u s)"
    using assms by (simp add: hat_inv_def table_entry_def)
  then show ?thesis
    by (auto simp: set_live_hats hats_of_bound)
qed

lemma live_hats_destroy_attached:
  assumes "hat_inv u s"
  shows "live_hats u (snd (destroy_attached u s)) = []"
proof (cases "attachedHats s u")
  case None
  then show ?thesis
    using assms by (simp add: destroy_attached_absent hat_inv_def table_entry_def)
next
  case (Some a)
  have live: "live_hats u s = [a]"
    using assms Some by (simp add: hat_inv_def table_entry_def)
  have "live_hats u (snd (destroy_attached u s)) =
          filter (\<lambda>i. i \<noteq> a) (live_hats u s)"
    using Some by (simp add: live_hats_def destroy_attached_destroyed conj_commute)
  then show ?thesis
    by (simp add: live)
qed

lemma hat_inv_destroy_attached:
  assumes "hat_inv u s"
  shows "hat_inv u (snd (destroy_attached u s))"
proof -
  have "\<forall>d \<in> destroyed (ctx (snd (destroy_attached u s))). d < length (actors (ctx s))"
    using assms table_entry_bound [OF assms]
    by (auto simp: destroy_attached_destroyed hat_inv_def split: option.splits)
  then show ?thesis
    using live_hats_destroy_attached [OF assms]
    by (simp add: hat_inv_def table_entry_def)
qed

lemma hats_of_append:
  "hats_of u (s\<lparr>ctx := (ctx s)\<lparr>actors := actors (ctx s) @ [new]\<rparr>, attachedHats := t\<rparr>) =
     hats_of u s @ (if attached_to u new then [length (actors (ctx s))] else [])"
proof -
  have "filter (\<lambda>i. attached_to u ((actors (ctx s) @ [new]) ! i)) [0..<length (actors (ctx s))] =
        filter (\<lambda>i. attached_to u (actors (ctx s) ! i)) [0..<length (actors (ctx s))]"
    by (rule filter_cong) (simp_all add: nth_append)
  then show ?thesis
    by (simp add: hats_of_def)
qed

lemma hat_inv_attach:
  assumes "hat_inv u s" and "attachedHats s u = None" and "attached_to u new"
  shows "hat_inv u (s\<lparr>ctx := (ctx s)\<lparr>actors := actors (ctx s) @ [new]\<rparr>,
                     attachedHats := (attachedHats s)(u \<mapsto> length (actors (ctx s)))\<rparr>)"
proof -
  have fresh: "length (actors (ctx s)) \<notin> destroyed (ctx s)"
    using assms(1) by (auto simp: hat_inv_def)
  have "live_hats u s = []"
    using assms(1,2) by (simp add: hat_inv_def table_entry_def)
  then show ?thesis
    using assms fresh
    by (auto simp: hat_inv_def live_hats_def hats_of_append table_entry_def less_Suc_eq)
qed

lemma wearHat_cases:
  "snd (wearHat sdk hatId u s) = snd (destroy_attached u s) \<or>
   (\<exists>new. attached_to u new \<and>
      snd (wearHat sdk hatId u s) =
        (snd (destroy_attached u s))
          \<lparr>ctx := (ctx (snd (destroy_attached u s)))
                   \<lparr>actors := actors (ctx (snd (destroy_attached u s))) @ [new]\<rparr>,
           attachedHats := (attachedHats (snd (destroy_attached u s)))
                   (u \<mapsto> length (actors (ctx (snd (destroy_attached u s)))))\<rparr>)"
proof (cases "attachedHats s u = None \<and> u \<in> set Object_prototype_keys")
  case True
  then show ?thesis
    by (simp add: wearHat_first_throws destroy_attached_absent)
next
  case False
  then have ok: "attachedHats s u \<noteq> None \<or> u \<notin> set Object_prototype_keys"
    by auto
  define s2 where "s2 = snd (destroy_attached u s)"
  have att: "snd (attach_new sdk pid r u s2) = s2 \<or>
     (\<exists>new. attached_to u new \<and>
        snd (attach_new sdk pid r u s2) =
          s2\<lparr>ctx := (ctx s2)\<lparr>actors := actors (ctx s2) @ [new]\<rparr>,
             attachedHats := (attachedHats s2)(u \<mapsto> length (actors (ctx s2)))\<rparr>)" for pid r
  proof -
    have "attached_to u ((hat_actor sdk r u)\<lparr>prefabId := pid\<rparr>)"
      by (simp add: attached_to_def hat_actor_def)
    then show ?thesis
      using attach_new_cases [of sdk pid r u s2] by (metis snd_conv)
  qed
  have "snd (wearHat sdk hatId u s) = s2 \<or>
     (\<exists>pid r. snd (wearHat sdk hatId u s) = snd (attach_new sdk pid r u s2))"
    unfolding s2_def by (auto simp: wearHat_rest [OF ok] split: property.splits)
  then show ?thesis
    unfolding s2_def [symmetric] using att by metis
qed

lemma hat_inv_wearHat:
  assumes "hat_inv u s"
  shows "hat_inv u (snd (wearHat sdk hatId u s))"
proof -
  have inv2: "hat_inv u (snd (destroy_attached u s))"
    by (rule hat_inv_destroy_attached [OF assms])
  have none2: "attachedHats (snd (destroy_attached u s)) u = None"
    by simp
  from wearHat_cases [of sdk hatId u s] show ?thesis
  proof
    assume "snd (wearHat sdk hatId u s) = snd (destroy_attached u s)"
    then show ?thesis using inv2 by simp
  next
    assume "\<exists>new. attached_to u new \<and>
      snd (wearHat sdk hatId u s) =
        (snd (destroy_attached u s))
          \<lparr>ctx := (ctx (snd (destroy_attached u s)))
                   \<lparr>actors := actors (ctx (snd (destroy_attached u s))) @ [new]\<rparr>,
           attachedHats := (attachedHats (snd (destroy_attached u s)))
                   (u \<mapsto> length (actors (ctx (snd (destroy_attached u s)))))\<rparr>"
    then obtain new where n: "attached_to u new"
      and eq: "snd (wearHat sdk hatId u s) =
        (snd (destroy_attached u s))
          \<lparr>ctx := (ctx (snd (destroy_attached u s)))
                   \<lparr>actors := actors (ctx (snd (destroy_attached u s))) @ [new]\<rparr>,
           attachedHats := (attachedHats (snd (destroy_attached u s)))
                   (u \<mapsto> length (actors (ctx (snd (destroy_attached u s)))))\<rparr>"
      by blast
    show ?thesis
      unfolding eq by (rule hat_inv_attach [OF inv2 none2 n])
  qed
qed

lemma hat_inv_do_call: "hat_inv u s \<Longrightarrow> hat_inv u (do_call sdk u c s)"
  by (cases c) (simp_all add: hat_inv_wearHat userLeft_def hat_inv_destroy_attached)

lemma hat_inv_run_calls: "hat_inv u s \<Longrightarrow> hat_inv u (run_calls sdk u cs s)"
  by (induction cs arbitrary: s) (simp_all add: hat_inv_do_call)

lemma wearHat_entry:
  "attachedHats (snd (wearHat sdk hatId u s)) u = None \<or>
   attachedHats (snd (wearHat sdk hatId u s)) u = Some (length (actors (ctx s)))"
  using wearHat_cases [of sdk hatId u s] by auto

text \<open>Claim C2.  Let \<open>s\<close> be the state after any finite sequence of \<^verbatim>\<open>wearHat\<close> and
  \<^verbatim>\<open>userLeft\<close> calls for user \<open>u\<close>, started in a state that satisfies the invariant
  \<open>hat_inv\<close> for \<open>u\<close>; every state that the events of a session reach does, as the last
  section shows.  Then the live hat actors of \<open>u\<close> are exactly
  the entry of the attachment table for \<open>u\<close>, so there is at most one.  A further
  \<^verbatim>\<open>wearHat\<close> call for \<open>u\<close>, whatever hat it selects, leaves every hat actor that was
  created for \<open>u\<close> before the call destroyed, and in particular destroys the instance in the
  table and removes it from the table.\<close>

theorem at_most_one_hat:
  assumes "hat_inv u s0"
  shows "hat_inv u (run_calls sdk u cs s0) \<and>
         live_hats u (run_calls sdk u cs s0) = table_entry u (run_calls sdk u cs s0) \<and>
         length (live_hats u (run_calls sdk u cs s0)) \<le> 1 \<and>
         (\<forall>b \<in> set (hats_of u (run_calls sdk u cs s0)).
            b \<in> destroyed (ctx (snd (wearHat sdk hatId u (run_calls sdk u cs s0))))) \<and>
         (\<forall>a. attachedHats (run_calls sdk u cs s0) u = Some a \<longrightarrow>
            a \<in> destroyed (ctx (snd (wearHat sdk hatId u (run_calls sdk u cs s0)))) \<and>
            attachedHats (snd (wearHat sdk hatId u (run_calls sdk u cs s0))) u \<noteq> Some a)"
proof -
  define s where "s = run_calls sdk u cs s0"
  have inv: "hat_inv u s"
    unfolding s_def by (rule hat_inv_run_calls [OF assms])
  have live: "live_hats u s = table_entry u s"
    using inv by (simp add: hat_inv_def)
  have one: "length (live_hats u s) \<le> 1"
    by (simp add: live table_entry_def split: option.splits)
  have prev: "b \<in> destroyed (ctx (snd (wearHat sdk hatId u s)))" if "b \<in> set (hats_of u s)" for b
  proof (cases "b \<in> destroyed (ctx s)")
    case True
    then show ?thesis
      by (simp add: wearHat_destroyed destroy_attached_destroyed split: option.splits)
  next
    case False
    then have "b \<in> set (table_entry u s)"
      using that live [symmetric] by (simp add: set_live_hats)
    then have "attachedHats s u = Some b"
      by (simp add: table_entry_def split: option.splits)
    then show ?thesis
      by (simp add: wearHat_destroyed destroy_attached_destroyed)
  qed
  have uncond: "a \<in> destroyed (ctx (snd (wearHat sdk hatId u s))) \<and>
      attachedHats (snd (wearHat sdk hatId u s)) u \<noteq> Some a" if "attachedHats s u = Some a" for a
  proof -
    have "a < length (actors (ctx s))"
      using table_entry_bound [OF inv that] by simp
    then show ?thesis
      using that wearHat_entry [of sdk hatId u s]
      by (auto simp: wearHat_destroyed destroy_attached_destroyed)
  qed
  show ?thesis
    unfolding s_def [symmetric] using inv live one prev uncond by blast
qed

section \<open>The example\<close>

lemma example_db_lookup:
  "lookup example_db ''none'' = Some none_hat"
  "lookup example_db ''cap'' = Some cap_hat"
  "lookup example_db ''wizard'' = None"
  by (simp_all add: lookup_def example_db_def)

lemma example_names:
  "''U'' \<notin> set Object_prototype_keys"
  "''V'' \<notin> set Object_prototype_keys"
  "''cap'' \<notin> set Object_prototype_keys"
  "''wizard'' \<notin> set Object_prototype_keys"
  "''toString'' \<in> set Object_prototype_keys"
  by (simp_all add: Object_prototype_keys_def)

lemma example_db_keys:
  "list_all (\<lambda>k. k \<notin> set Object_prototype_keys) (Object_keys example_db)"
proof -
  have "set (Object_keys example_db) = {''none'', ''cap''}"
    by (simp add: Object_keys_def example_db_def)
  then show ?thesis
    by (simp add: list_all_iff Object_prototype_keys_def)
qed

lemma example_truthy:
  "\<not> truthy (resourceName none_hat)"
  "truthy (resourceName cap_hat)"
  by (simp_all add: truthy_def none_hat_def cap_hat_def)

lemma example_app_fields:
  "HatDatabase example_app = example_db"
  "prefabs example_app = Map.empty"
  "attachedHats example_app = Map.empty"
  "actors (ctx example_app) = []"
  "destroyed (ctx example_app) = {}"
  "undefined_prefabs example_app = {}"
  by (simp_all add: example_app_def new_WearAHat_def)

lemma example_loaded_fields:
  "HatDatabase example_loaded = example_db"
  "prefabs example_loaded = [''cap'' \<mapsto> cap_asset]"
  "attachedHats example_loaded = Map.empty"
  "actors (ctx example_loaded) = []"
  "destroyed (ctx example_loaded) = {}"
  "undefined_prefabs example_loaded = {}"
  by (simp_all add: example_loaded_def example_app_fields)

lemma example_worn_eq:
  "example_worn =
     example_loaded
       \<lparr>ctx := (ctx example_loaded)
          \<lparr>actors := [(hat_actor example_sdk cap_hat ''U'')\<lparr>prefabId := Some (asset_id cap_asset)\<rparr>]\<rparr>,
        attachedHats := [''U'' \<mapsto> 0]\<rparr>"
proof -
  have h1: "lookup (HatDatabase example_loaded) ''cap'' = Some cap_hat"
    by (simp add: example_loaded_fields example_db_lookup)
  have h3: "prefabs example_loaded ''cap'' = Some cap_asset"
    by (simp add: example_loaded_fields)
  have ok: "attachedHats example_loaded ''U'' \<noteq> None \<or> ''U'' \<notin> set Object_prototype_keys"
    by (simp add: example_names)
  have none: "snd (destroy_attached ''U'' example_loaded) = example_loaded"
    by (rule destroy_attached_absent) (simp add: example_loaded_fields)
  show ?thesis
    unfolding example_worn_def
    by (simp add: wearHat_create [OF h1 example_truthy(2) h3 ok] none example_loaded_fields)
qed

lemma example_worn_fields:
  "HatDatabase example_worn = example_db"
  "prefabs example_worn = [''cap'' \<mapsto> cap_asset]"
  "attachedHats example_worn = [''U'' \<mapsto> 0]"
  "actors (ctx example_worn) =
     [(hat_actor example_sdk cap_hat ''U'')\<lparr>prefabId := Some (asset_id cap_asset)\<rparr>]"
  "destroyed (ctx example_worn) = {}"
  "undefined_prefabs example_worn = {}"
  by (simp_all add: example_worn_eq example_loaded_fields)

text \<open>Claim C3 as stated fails: the user id \<^verbatim>\<open>toString\<close> has no entry in the attachment
  table, and \<^verbatim>\<open>userLeft\<close> throws a \<^verbatim>\<open>TypeError\<close> for it.\<close>

theorem userLeft_inherited_counterexample:
  "attachedHats example_loaded ''toString'' = None \<and>
   fst (userLeft ''toString'' example_loaded) = Some TypeError"
  by (simp add: userLeft_def destroy_attached_fst example_loaded_fields example_names)

text \<open>The amended C3 in the example: for \<open>U\<close>, who wears the cap or wears nothing, and for
  the user id \<^verbatim>\<open>toString\<close>.\<close>

theorem userLeft_idempotent_witness:
  "''U'' \<notin> set Object_prototype_keys \<and>
   attachedHats example_worn ''U'' = Some 0 \<and>
   fst (userLeft ''U'' example_worn) = None \<and>
   attachedHats (snd (userLeft ''U'' example_worn)) ''U'' = None \<and>
   userLeft ''U'' (snd (userLeft ''U'' example_worn)) = userLeft ''U'' example_worn \<and>
   attachedHats example_loaded ''U'' = None \<and>
   snd (userLeft ''U'' example_loaded) = example_loaded \<and>
   ''toString'' \<in> set Object_prototype_keys \<and>
   attachedHats example_loaded ''toString'' = None \<and>
   userLeft ''toString'' example_loaded = (Some TypeError, example_loaded)"
  using userLeft_idempotent [of example_loaded "''U''"]
    userLeft_idempotent [of example_worn "''U''"]
    userLeft_idempotent [of example_loaded "''toString''"]
  by (simp add: example_loaded_fields example_worn_fields example_names)

text \<open>The statement of C4 in the example: \<open>U\<close> wears the cap and selects ``none''.\<close>

theorem wearHat_none_clears_witness:
  "attachedHats example_worn ''U'' = Some 0 \<and>
   lookup (HatDatabase example_worn) ''none'' = Some none_hat \<and>
   \<not> truthy (resourceName none_hat) \<and>
   fst (wearHat example_sdk ''none'' ''U'' example_worn) = None \<and>
   0 \<in> destroyed (ctx (snd (wearHat example_sdk ''none'' ''U'' example_worn))) \<and>
   attachedHats (snd (wearHat example_sdk ''none'' ''U'' example_worn)) ''U'' = None \<and>
   length (actors (ctx (snd (wearHat example_sdk ''none'' ''U'' example_worn)))) = 1"
proof -
  have h1: "attachedHats example_worn ''U'' = Some 0"
    by (simp add: example_worn_fields)
  have h2: "lookup (HatDatabase example_worn) ''none'' = Some none_hat"
    by (simp add: example_worn_fields example_db_lookup)
  show ?thesis
    using h1 h2 example_truthy(1)
      wearHat_none_clears [OF h1 h2 example_truthy(1), of example_sdk]
    by (simp add: example_worn_fields)
qed

text \<open>Claim C9 as stated fails: \<^verbatim>\<open>toString\<close> is not a key of the example's catalog, and
  \<^verbatim>\<open>wearHat\<close> called with it as hat id returns without an error.\<close>

theorem wearHat_unknown_hat_counterexample:
  "lookup (HatDatabase example_worn) ''toString'' = None \<and>
   fst (wearHat example_sdk ''toString'' ''U'' example_worn) = None"
proof -
  have ok: "attachedHats example_worn ''U'' \<noteq> None \<or> ''U'' \<notin> set Object_prototype_keys"
    by (simp add: example_names)
  have h: "lookup (HatDatabase example_worn) ''toString'' = None"
    by (simp add: example_worn_fields lookup_def example_db_def)
  show ?thesis
    using h by (simp add: wearHat_rest [OF ok] read_property_def example_names)
qed

text \<open>The amended C9 in the example: \<open>U\<close> wears the cap and \<^verbatim>\<open>wearHat\<close> is called with a
  hat id that the catalog does not have, \<^verbatim>\<open>wizard\<close> or \<^verbatim>\<open>toString\<close>.\<close>

theorem wearHat_unknown_hat_throws_witness:
  "lookup (HatDatabase example_worn) ''wizard'' = None \<and>
   ''wizard'' \<notin> set Object_prototype_keys \<and>
   attachedHats example_worn ''U'' = Some 0 \<and>
   fst (wearHat example_sdk ''wizard'' ''U'' example_worn) = Some TypeError \<and>
   attachedHats (snd (wearHat example_sdk ''wizard'' ''U'' example_worn)) ''U'' = None \<and>
   0 \<in> destroyed (ctx (snd (wearHat example_sdk ''wizard'' ''U'' example_worn))) \<and>
   lookup (HatDatabase example_worn) ''toString'' = None \<and>
   ''toString'' \<in> set Object_prototype_keys \<and>
   ''U'' \<notin> set Object_prototype_keys \<and>
   fst (wearHat example_sdk ''toString'' ''U'' example_worn) = None \<and>
   attachedHats (snd (wearHat example_sdk ''toString'' ''U'' example_worn)) ''U'' = None \<and>
   0 \<in> destroyed (ctx (snd (wearHat example_sdk ''toString'' ''U'' example_worn)))"
proof -
  have h1: "lookup (HatDatabase example_worn) ''wizard'' = None"
    by (simp add: example_worn_fields example_db_lookup)
  have h1': "lookup (HatDatabase example_worn) ''toString'' = None"
    by (simp add: example_worn_fields lookup_def example_db_def)
  have h2: "attachedHats example_worn ''U'' = Some 0"
    by (simp add: example_worn_fields)
  show ?thesis
    using h1 h1' h2 example_names(1,4,5)
      wearHat_unknown_hat_throws [OF h1, of example_sdk "''U''"]
      wearHat_unknown_hat_throws [OF h1', of example_sdk "''U''"]
    by blast
qed

text \<open>Claim C1 as stated fails: in the example's catalog the cap has a non-empty
  \<^verbatim>\<open>resourceName\<close>, and when its prefab is missing from the prefab table,
  \<^verbatim>\<open>wearHat\<close> throws a \<^verbatim>\<open>TypeError\<close> instead of returning silently.\<close>

theorem wearHat_missing_prefab_counterexample:
  "lookup (HatDatabase example_app) ''cap'' = Some cap_hat \<and>
   truthy (resourceName cap_hat) \<and>
   prefabs example_app ''cap'' = None \<and>
   fst (wearHat example_sdk ''cap'' ''U'' example_app) = Some TypeError"
proof -
  have ok: "attachedHats example_app ''U'' \<noteq> None \<or> ''U'' \<notin> set Object_prototype_keys"
    by (simp add: example_names)
  show ?thesis
    by (simp add: wearHat_rest [OF ok] read_property_def read_prefab_def example_app_fields
        example_db_lookup example_truthy example_names)
qed

text \<open>The amended C1 in the example: \<open>U\<close> wears the cap, the prefab table is empty, and
  \<open>U\<close> selects the cap again.\<close>

theorem wearHat_missing_prefab_throws_witness:
  "lookup (HatDatabase (example_worn\<lparr>prefabs := Map.empty\<rparr>)) ''cap'' = Some cap_hat \<and>
   truthy (resourceName cap_hat) \<and>
   prefabs (example_worn\<lparr>prefabs := Map.empty\<rparr>) ''cap'' = None \<and>
   list_all (\<lambda>k. k \<notin> set Object_prototype_keys)
     (Object_keys (HatDatabase (example_worn\<lparr>prefabs := Map.empty\<rparr>))) \<and>
   attachedHats (example_worn\<lparr>prefabs := Map.empty\<rparr>) ''U'' = Some 0 \<and>
   fst (wearHat example_sdk ''cap'' ''U'' (example_worn\<lparr>prefabs := Map.empty\<rparr>)) = Some TypeError \<and>
   length (actors (ctx (snd (wearHat example_sdk ''cap'' ''U'' (example_worn\<lparr>prefabs := Map.empty\<rparr>))))) = 1 \<and>
   attachedHats (snd (wearHat example_sdk ''cap'' ''U'' (example_worn\<lparr>prefabs := Map.empty\<rparr>))) ''U'' = None \<and>
   destroyed (ctx (snd (wearHat example_sdk ''cap'' ''U'' (example_worn\<lparr>prefabs := Map.empty\<rparr>)))) = {0}"
proof -
  let ?s = "example_worn\<lparr>prefabs := Map.empty\<rparr>"
  have h1: "lookup (HatDatabase ?s) ''cap'' = Some cap_hat"
    by (simp add: example_worn_fields example_db_lookup)
  have h3: "prefabs ?s ''cap'' = None"
    by simp
  have h4: "list_all (\<lambda>k. k \<notin> set Object_prototype_keys) (Object_keys (HatDatabase ?s))"
    using example_db_keys by (simp add: example_worn_fields)
  have h4': "\<forall>k \<in> set (Object_keys (HatDatabase ?s)). k \<notin> set Object_prototype_keys"
    using h4 by (simp add: list_all_iff)
  show ?thesis
    using h1 h4 example_truthy(2)
      wearHat_missing_prefab_throws [OF h1 example_truthy(2) h3 h4', of example_sdk "''U''"]
    by (simp add: example_worn_fields destroy_attached_destroyed)
qed

text \<open>The catalog key \<^verbatim>\<open>constructor\<close> of a hat whose load failed: no \<^verbatim>\<open>TypeError\<close>, the
  outcome is the SDK's.\<close>

lemma example_inherited_prefab:
  "fst (wearHat example_sdk ''constructor'' ''U''
     (example_app\<lparr>HatDatabase := [(''constructor'', cap_hat)]\<rparr>)) = Some SdkError"
proof -
  let ?s = "example_app\<lparr>HatDatabase := [(''constructor'', cap_hat)]\<rparr>"
  have h1: "lookup (HatDatabase ?s) ''constructor'' = Some cap_hat"
    by (simp add: lookup_def)
  have h3: "prefabs ?s ''constructor'' = None"
    by (simp add: example_app_fields)
  have h3': "''constructor'' \<notin> undefined_prefabs ?s"
    by (simp add: example_app_fields)
  have h4: "''constructor'' \<in> set Object_prototype_keys"
    by (simp add: Object_prototype_keys_def)
  show ?thesis
    by (simp add: wearHat_inherited_prefab [OF h1 example_truthy(2) h3 h3' h4 example_names(1)]
        example_sdk_def)
qed

text \<open>The statement of C10 in the example: \<open>U\<close> wears the cap while \<open>V\<close> selects the cap or
  leaves.\<close>

theorem wearHat_frame_witness:
  "''V'' \<noteq> ''U'' \<and>
   attachedHats (snd (wearHat example_sdk ''cap'' ''V'' example_worn)) ''U'' = Some 0 \<and>
   attachedHats (snd (userLeft ''V'' example_worn)) ''U'' = Some 0 \<and>
   HatDatabase (snd (wearHat example_sdk ''cap'' ''V'' example_worn)) = example_db \<and>
   prefabs (snd (wearHat example_sdk ''cap'' ''V'' example_worn)) ''cap'' = Some cap_asset \<and>
   undefined_prefabs (snd (userLeft ''V'' example_worn)) = {}"
  using wearHat_frame [of "''U''" "''V''" example_sdk "''cap''" example_worn]
  by (simp add: example_worn_fields)

text \<open>Claim C7 as stated fails: in the example the cap has a resource and its prefab is in the
  prefab table, but for the user id \<^verbatim>\<open>toString\<close> the first statement of \<^verbatim>\<open>wearHat\<close>
  throws a \<^verbatim>\<open>TypeError\<close>; no actor is created and the table gets no entry.\<close>

theorem wearHat_attaches_counterexample:
  "lookup (HatDatabase example_loaded) ''cap'' = Some cap_hat \<and>
   truthy (resourceName cap_hat) \<and>
   prefabs example_loaded ''cap'' = Some cap_asset \<and>
   fst (wearHat example_sdk ''cap'' ''toString'' example_loaded) = Some TypeError \<and>
   actors (ctx (snd (wearHat example_sdk ''cap'' ''toString'' example_loaded))) = [] \<and>
   attachedHats (snd (wearHat example_sdk ''cap'' ''toString'' example_loaded)) ''toString'' = None"
proof -
  have "attachedHats example_loaded ''toString'' = None"
    by (simp add: example_loaded_fields)
  then have "wearHat example_sdk ''cap'' ''toString'' example_loaded = (Some TypeError, example_loaded)"
    by (rule wearHat_first_throws) (rule example_names(5))
  then show ?thesis
    by (simp add: example_loaded_fields example_db_lookup example_truthy)
qed

text \<open>The amended C7 in the example: \<open>U\<close> selects the cap after it was preloaded; the cap's
  rotation of 90, 180 and 0 degrees gives the angles \<open>pi / 2\<close>, \<open>pi\<close> and \<open>0\<close>.\<close>

theorem wearHat_attaches_witness:
  "lookup (HatDatabase example_loaded) ''cap'' = Some cap_hat \<and>
   truthy (resourceName cap_hat) \<and>
   prefabs example_loaded ''cap'' = Some cap_asset \<and>
   ''U'' \<notin> set Object_prototype_keys \<and>
   fst (wearHat example_sdk ''cap'' ''U'' example_loaded) = None \<and>
   attachedHats (snd (wearHat example_sdk ''cap'' ''U'' example_loaded)) ''U'' = Some 0 \<and>
   prefabId (actors (ctx (snd (wearHat example_sdk ''cap'' ''U'' example_loaded))) ! 0) =
     Some ''asset-cap'' \<and>
   local_position (actors (ctx (snd (wearHat example_sdk ''cap'' ''U'' example_loaded))) ! 0) =
     Some \<lparr>vec_x = 0, vec_y = 0.1, vec_z = 0\<rparr> \<and>
   local_rotation (actors (ctx (snd (wearHat example_sdk ''cap'' ''U'' example_loaded))) ! 0) =
     Some (pi / 2, pi, 0) \<and>
   local_scale (actors (ctx (snd (wearHat example_sdk ''cap'' ''U'' example_loaded))) ! 0) =
     Some \<lparr>vec_x = 1, vec_y = 1, vec_z = 1\<rparr> \<and>
   attachment (actors (ctx (snd (wearHat example_sdk ''cap'' ''U'' example_loaded))) ! 0) =
     Some \<lparr>attachPoint = ''head'', userId = ''U''\<rparr>"
proof -
  have h1: "lookup (HatDatabase example_loaded) ''cap'' = Some cap_hat"
    by (simp add: example_loaded_fields example_db_lookup)
  have h3: "prefabs example_loaded ''cap'' = Some cap_asset"
    by (simp add: example_loaded_fields)
  show ?thesis
    using h1 example_truthy(2) h3 example_names(1)
      wearHat_attaches [OF h1 example_truthy(2) h3 example_names(1), of example_sdk]
    by (simp add: example_loaded_fields cap_hat_def cap_asset_def example_sdk_def)
qed

lemma hat_inv_example_loaded: "hat_inv ''U'' example_loaded"
  by (simp add: hat_inv_def live_hats_def hats_of_def table_entry_def example_loaded_fields)

lemma example_reworn:
  "attachedHats (snd (wearHat example_sdk ''cap'' ''U'' example_worn)) ''U'' = Some 1"
  "destroyed (ctx (snd (wearHat example_sdk ''cap'' ''U'' example_worn))) = {0}"
proof -
  have h1: "lookup (HatDatabase example_worn) ''cap'' = Some cap_hat"
    by (simp add: example_worn_fields example_db_lookup)
  have h3: "prefabs example_worn ''cap'' = Some cap_asset"
    by (simp add: example_worn_fields)
  have ok: "attachedHats example_worn ''U'' \<noteq> None \<or> ''U'' \<notin> set Object_prototype_keys"
    by (simp add: example_names)
  note w = wearHat_create [OF h1 example_truthy(2) h3 ok, of example_sdk]
  show "attachedHats (snd (wearHat example_sdk ''cap'' ''U'' example_worn)) ''U'' = Some 1"
    by (simp add: w example_worn_fields)
  show "destroyed (ctx (snd (wearHat example_sdk ''cap'' ''U'' example_worn))) = {0}"
    by (simp add: w destroy_attached_destroyed example_worn_fields)
qed

text \<open>The statement of C2 in the example: \<open>U\<close> selects the cap twice.\<close>

theorem at_most_one_hat_witness:
  "hat_inv ''U'' example_loaded \<and>
   table_entry ''U'' (run_calls example_sdk ''U'' [WearHat ''cap'', WearHat ''cap''] example_loaded) = [1] \<and>
   live_hats ''U'' (run_calls example_sdk ''U'' [WearHat ''cap'', WearHat ''cap''] example_loaded) = [1] \<and>
   destroyed (ctx (run_calls example_sdk ''U'' [WearHat ''cap'', WearHat ''cap''] example_loaded)) = {0}"
proof -
  have run: "run_calls example_sdk ''U'' [WearHat ''cap'', WearHat ''cap''] example_loaded =
      snd (wearHat example_sdk ''cap'' ''U'' example_worn)"
    by (simp add: example_worn_def)
  have entry: "table_entry ''U''
      (run_calls example_sdk ''U'' [WearHat ''cap'', WearHat ''cap''] example_loaded) = [1]"
    unfolding run by (simp add: table_entry_def example_reworn)
  have "live_hats ''U''
      (run_calls example_sdk ''U'' [WearHat ''cap'', WearHat ''cap''] example_loaded) =
    table_entry ''U''
      (run_calls example_sdk ''U'' [WearHat ''cap'', WearHat ''cap''] example_loaded)"
    using at_most_one_hat [OF hat_inv_example_loaded, of example_sdk
        "[WearHat ''cap'', WearHat ''cap'']" "''none''"]
    by blast
  then show ?thesis
    using hat_inv_example_loaded entry unfolding run by (simp add: example_reworn)
qed

section \<open>The menu\<close>

lemma lookup_entry:
  assumes "distinct (map fst db)" and "e \<in> set db"
  shows "lookup db (fst e) = Some (snd e)"
  using assms by (cases e) (simp add: lookup_def)

lemma length_Object_entries [simp]: "length (Object_entries obj) = length obj"
  by (simp add: Object_entries_def sum_length_filter_compl)

lemma Object_entries_plain:
  assumes "\<forall>k \<in> set (map fst obj). \<not> is_array_index k"
  shows "Object_entries obj = obj"
proof -
  have "filter (\<lambda>e. is_array_index (fst e)) obj = []"
    using assms by (simp add: filter_empty_conv)
  moreover have "filter (\<lambda>e. \<not> is_array_index (fst e)) obj = obj"
    using assms by (simp add: filter_id_conv)
  ultimately show ?thesis
    by (simp add: Object_entries_def)
qed

lemma distinct_Object_keys:
  assumes "distinct (map fst obj)"
  shows "distinct (Object_keys obj)"
proof -
  have inj: "inj_on fst (set obj)" and d: "distinct obj"
    using assms by (simp_all add: distinct_map)
  have "distinct (Object_entries obj)"
    using d by (auto simp: Object_entries_def)
  then show ?thesis
    using inj by (simp add: Object_keys_def distinct_map)
qed

lemma concat_pairs_Suc:
  "concat (map (\<lambda>i. [f i, g i]) [0..<Suc n]) = f 0 # g 0 # concat (map (\<lambda>i. [f (Suc i), g (Suc i)]) [0..<n])"
  by (simp add: map_upt_Suc del: upt_Suc)

lemma concat_pairs_length: "length (concat (map (\<lambda>i. [f i, g i]) [0..<n])) = 2 * n"
  by (induction n) simp_all

lemma concat_pairs_nth:
  assumes "i < n"
  shows "concat (map (\<lambda>i. [f i, g i]) [0..<n]) ! (2 * i) = f i \<and>
         concat (map (\<lambda>i. [f i, g i]) [0..<n]) ! Suc (2 * i) = g i"
  using assms
proof (induction n)
  case 0
  then show ?case by simp
next
  case (Suc n)
  show ?case
  proof (cases "i < n")
    case True
    then show ?thesis
      using Suc.IH by (simp add: nth_append concat_pairs_length)
  next
    case False
    then have "i = n" using Suc.prems by simp
    then show ?thesis
      by (simp add: nth_append concat_pairs_length)
  qed
qed

lemma menu_loop_entries:
  assumes "\<forall>e \<in> set es. lookup (HatDatabase s) (fst e) = Some (snd e)"
  shows "menu_loop menu mesh (map fst es) y s =
     (None, y + 0.5 * real (length es),
      s\<lparr>ctx := (ctx s)
         \<lparr>actors := actors (ctx s) @
            concat (map (\<lambda>i. [menu_button menu mesh (fst (es ! i)) (y + 0.5 * real i),
                               menu_label menu (displayName (snd (es ! i))) (y + 0.5 * real i)])
                     [0..<length es]),
          clickHandlers := clickHandlers (ctx s) @
            map (\<lambda>i. (length (actors (ctx s)) + 2 * i, fst (es ! i))) [0..<length es]\<rparr>\<rparr>)"
  using assms
proof (induction es arbitrary: y s)
  case Nil
  then show ?case by simp
next
  case (Cons e es)
  define s1 where "s1 = s\<lparr>ctx := (ctx s)
      \<lparr>actors := actors (ctx s) @
         [menu_button menu mesh (fst e) y, menu_label menu (displayName (snd e)) y],
       clickHandlers := clickHandlers (ctx s) @ [(length (actors (ctx s)), fst e)]\<rparr>\<rparr>"
  have db: "HatDatabase s1 = HatDatabase s"
    by (simp add: s1_def)
  have look: "lookup (HatDatabase s) (fst e) = Some (snd e)"
    using Cons.prems by simp
  have one: "menu_loop menu mesh (map fst (e # es)) y s =
             menu_loop menu mesh (map fst es) (y + 0.5) s1"
    by (simp add: look read_property_def Actor_Create_def setBehavior_onClick_def s1_def)
      (auto intro!: arg_cong [where f = "menu_loop menu mesh (map fst es) (y + 1 / 2)"]
         WearAHat.equality Context.equality)
  have rest: "\<forall>e \<in> set es. lookup (HatDatabase s1) (fst e) = Some (snd e)"
    using Cons.prems by (simp add: db)
  show ?case
    unfolding one Cons.IH [OF rest]
    by (auto simp: s1_def concat_pairs_Suc map_upt_Suc algebra_simps add_divide_distrib simp del: upt_Suc
        intro!: WearAHat.equality Context.equality)
qed

lemma showHatMenu_result:
  assumes "distinct (map fst (HatDatabase s))"
  shows "showHatMenu s =
     (None,
      s\<lparr>ctx := (ctx s)
         \<lparr>actors := actors (ctx s) @ [no_fields] @
            concat (map (\<lambda>i. [menu_button (length (actors (ctx s))) (length (meshes (ctx s)))
                                 (fst (Object_entries (HatDatabase s) ! i)) (0.3 + 0.5 * real i),
                               menu_label (length (actors (ctx s)))
                                 (displayName (snd (Object_entries (HatDatabase s) ! i))) (0.3 + 0.5 * real i)])
                     [0..<length (HatDatabase s)]) @
            [menu_title (length (actors (ctx s))) (0.3 + 0.5 * real (length (HatDatabase s)))],
          clickHandlers := clickHandlers (ctx s) @
            map (\<lambda>i. (length (actors (ctx s)) + 1 + 2 * i, fst (Object_entries (HatDatabase s) ! i)))
              [0..<length (HatDatabase s)],
          meshes := meshes (ctx s) @
            [\<lparr>mesh_name = ''button'', mesh_width = 0.3, mesh_height = 0.3, mesh_depth = 0.01\<rparr>]\<rparr>\<rparr>)"
proof -
  define s0 where "s0 = s\<lparr>ctx := (ctx s)
      \<lparr>actors := actors (ctx s) @ [no_fields],
       meshes := meshes (ctx s) @
         [\<lparr>mesh_name = ''button'', mesh_width = 0.3, mesh_height = 0.3, mesh_depth = 0.01\<rparr>]\<rparr>\<rparr>"
  have "\<forall>e \<in> set (Object_entries (HatDatabase s0)).
      lookup (HatDatabase s0) (fst e) = Some (snd e)"
    using assms by (simp add: s0_def lookup_entry)
  note loop = menu_loop_entries [OF this, of "length (actors (ctx s))" "length (meshes (ctx s))" "0.3"]
  have keys: "Object_keys (HatDatabase s) = map fst (Object_entries (HatDatabase s0))"
    by (simp add: Object_keys_def s0_def)
  have start: "showHatMenu s =
     (case menu_loop (length (actors (ctx s))) (length (meshes (ctx s)))
             (map fst (Object_entries (HatDatabase s0))) 0.3 s0 of
        (Some e, y, s1) \<Rightarrow> (Some e, s1)
      | (None, y, s1) \<Rightarrow>
          let (title, c3) = Actor_Create (menu_title (length (actors (ctx s))) y) (ctx s1)
          in (None, s1\<lparr>ctx := c3\<rparr>))"
    by (simp add: showHatMenu_def Actor_Create_def createBoxMesh_def keys s0_def)
  show ?thesis
    unfolding start loop
    by (auto simp: Actor_Create_def s0_def intro!: WearAHat.equality Context.equality)
qed

lemma nth_after_container:
  "(xs @ [c] @ ys) ! (length xs + 1 + k) = ys ! k"
  by (simp add: nth_append)

text \<open>Claim C6, amended.  For a catalog \<open>db\<close>, an object and so with distinct keys,
  \<^verbatim>\<open>showHatMenu\<close> returns normally and creates, after the actors that exist already: one
  container actor; then for each entry of the catalog, in the order in which
  \<^verbatim>\<open>Object.keys\<close> lists the keys, a button and a label, both children of the container,
  the button named by the key and registered with a click handler for that key, the label
  showing the entry's \<^verbatim>\<open>displayName\<close>, both at height \<open>0.3 + 0.5 i\<close> for the \<open>i\<close>-th entry,
  which increases strictly with \<open>i\<close>; and last one title label, a child of the container
  and above every entry.  Nothing else is created.  The order of \<^verbatim>\<open>Object.keys\<close> is the
  order of declaration when no key of the catalog is an array index.\<close>

theorem showHatMenu_layout:
  fixes s :: "'q WearAHat"
  defines "db \<equiv> HatDatabase s"
    and "m \<equiv> length (actors (ctx s))"
    and "A \<equiv> actors (ctx (snd (showHatMenu s)))"
  assumes "distinct (map fst db)"
  shows "fst (showHatMenu s) = None \<and>
    A = actors (ctx s) @ [no_fields] @
        concat (map (\<lambda>i. [menu_button m (length (meshes (ctx s))) (Object_keys db ! i)
                             (0.3 + 0.5 * real i),
                           menu_label m (displayName (snd (Object_entries db ! i))) (0.3 + 0.5 * real i)])
                 [0..<length db]) @
        [menu_title m (0.3 + 0.5 * real (length db))] \<and>
    clickHandlers (ctx (snd (showHatMenu s))) =
      clickHandlers (ctx s) @ map (\<lambda>i. (m + 1 + 2 * i, Object_keys db ! i)) [0..<length db] \<and>
    (\<forall>i<length db.
       parentId (A ! (m + 1 + 2 * i)) = Some m \<and>
       actor_name (A ! (m + 1 + 2 * i)) = Some (Object_keys db ! i) \<and>
       collider (A ! (m + 1 + 2 * i)) = Some Auto \<and>
       actor_y (A ! (m + 1 + 2 * i)) = 0.3 + 0.5 * real i \<and>
       parentId (A ! (m + 2 + 2 * i)) = Some m \<and>
       shown_text (A ! (m + 2 + 2 * i)) = Some (displayName (snd (Object_entries db ! i))) \<and>
       actor_y (A ! (m + 2 + 2 * i)) = 0.3 + 0.5 * real i) \<and>
    (\<forall>i j. i < j \<and> j < length db \<longrightarrow>
       actor_y (A ! (m + 1 + 2 * i)) < actor_y (A ! (m + 1 + 2 * j))) \<and>
    parentId (A ! (m + 1 + 2 * length db)) = Some m \<and>
    shown_text (A ! (m + 1 + 2 * length db)) = Some ''        Wear a Hat'' \<and>
    (\<forall>i<length db. actor_y (A ! (m + 2 + 2 * i)) < actor_y (A ! (m + 1 + 2 * length db))) \<and>
    ((\<forall>k \<in> set (map fst db). \<not> is_array_index k) \<longrightarrow>
       Object_entries db = db \<and> Object_keys db = map fst db)"
proof -
  let ?b = "\<lambda>i. menu_button m (length (meshes (ctx s))) (Object_keys db ! i) (0.3 + 0.5 * real i) :: 'q ActorLike"
  let ?l = "\<lambda>i. menu_label m (displayName (snd (Object_entries db ! i))) (0.3 + 0.5 * real i) :: 'q ActorLike"
  let ?P = "concat (map (\<lambda>i. [?b i, ?l i]) [0..<length db])"
  let ?T = "menu_title m (0.3 + 0.5 * real (length db)) :: 'q ActorLike"
  have keys: "fst (Object_entries db ! i) = Object_keys db ! i" if "i < length db" for i
    using that by (simp add: Object_keys_def)
  have P_eq: "concat (map (\<lambda>i. [menu_button m (length (meshes (ctx s))) (fst (Object_entries db ! i))
                             (0.3 + 0.5 * real i) :: 'q ActorLike,
                           menu_label m (displayName (snd (Object_entries db ! i))) (0.3 + 0.5 * real i)])
                 [0..<length db]) = ?P"
    by (rule arg_cong [where f = concat]) (simp add: keys)
  have H_eq: "map (\<lambda>i. (m + 1 + 2 * i, fst (Object_entries db ! i))) [0..<length db] =
              map (\<lambda>i. (m + 1 + 2 * i, Object_keys db ! i)) [0..<length db]"
    by (simp add: keys)
  note res = showHatMenu_result [OF assms(4) [unfolded db_def], folded db_def m_def, unfolded P_eq H_eq]
  have ok: "fst (showHatMenu s) = None"
    by (simp add: res)
  have A: "A = actors (ctx s) @ [no_fields] @ (?P @ [?T])"
    unfolding A_def by (simp add: res)
  have H: "clickHandlers (ctx (snd (showHatMenu s))) =
      clickHandlers (ctx s) @ map (\<lambda>i. (m + 1 + 2 * i, Object_keys db ! i)) [0..<length db]"
    by (simp add: res)
  have lenP: "length ?P = 2 * length db"
    by (rule concat_pairs_length)
  have button: "A ! (m + 1 + 2 * i) = ?b i" if "i < length db" for i
  proof -
    have "A ! (m + 1 + 2 * i) = (?P @ [?T]) ! (2 * i)"
      unfolding A m_def by (rule nth_after_container)
    also have "\<dots> = ?P ! (2 * i)"
      by (rule nth_append_left) (simp only: lenP, simp add: that)
    also have "\<dots> = ?b i"
      using concat_pairs_nth [OF that, of ?b ?l] by (rule conjunct1)
    finally show ?thesis .
  qed
  have label: "A ! (m + 2 + 2 * i) = ?l i" if "i < length db" for i
  proof -
    have "A ! (m + 1 + Suc (2 * i)) = (?P @ [?T]) ! Suc (2 * i)"
      unfolding A m_def by (rule nth_after_container)
    also have "\<dots> = ?P ! Suc (2 * i)"
      by (rule nth_append_left) (simp only: lenP, use that in linarith)
    also have "\<dots> = ?l i"
      using concat_pairs_nth [OF that, of ?b ?l] by (rule conjunct2)
    finally have "A ! (m + 1 + Suc (2 * i)) = ?l i" .
    moreover have "m + 2 + 2 * i = m + 1 + Suc (2 * i)"
      by simp
    ultimately show ?thesis
      by (simp only:)
  qed
  have title: "A ! (m + 1 + 2 * length db) = ?T"
  proof -
    have "A ! (m + 1 + 2 * length db) = (?P @ [?T]) ! (2 * length db)"
      unfolding A m_def by (rule nth_after_container)
    also have "\<dots> = (?P @ [?T]) ! length ?P"
      by (simp only: lenP)
    also have "\<dots> = ?T"
      by (rule nth_append_length)
    finally show ?thesis .
  qed
  have bf: "parentId (?b i) = Some m \<and> actor_name (?b i) = Some (Object_keys db ! i) \<and>
      collider (?b i) = Some Auto \<and> actor_y (?b i) = 0.3 + 0.5 * real i" for i
    by (simp add: menu_button_def no_fields_def actor_y_def)
  have lf: "parentId (?l i) = Some m \<and> shown_text (?l i) = Some (displayName (snd (Object_entries db ! i))) \<and>
      actor_y (?l i) = 0.3 + 0.5 * real i" for i
    by (simp add: menu_label_def no_fields_def actor_y_def shown_text_def)
  have tf: "parentId ?T = Some m \<and> shown_text ?T = Some ''        Wear a Hat'' \<and>
      actor_y ?T = 0.3 + 0.5 * real (length db) + 0.25"
    by (simp add: menu_title_def no_fields_def actor_y_def shown_text_def eval_nat_numeral)
  have entries: "\<forall>i<length db.
       parentId (A ! (m + 1 + 2 * i)) = Some m \<and>
       actor_name (A ! (m + 1 + 2 * i)) = Some (Object_keys db ! i) \<and>
       collider (A ! (m + 1 + 2 * i)) = Some Auto \<and>
       actor_y (A ! (m + 1 + 2 * i)) = 0.3 + 0.5 * real i \<and>
       parentId (A ! (m + 2 + 2 * i)) = Some m \<and>
       shown_text (A ! (m + 2 + 2 * i)) = Some (displayName (snd (Object_entries db ! i))) \<and>
       actor_y (A ! (m + 2 + 2 * i)) = 0.3 + 0.5 * real i"
  proof (intro allI impI)
    fix i assume i: "i < length db"
    show "parentId (A ! (m + 1 + 2 * i)) = Some m \<and>
       actor_name (A ! (m + 1 + 2 * i)) = Some (Object_keys db ! i) \<and>
       collider (A ! (m + 1 + 2 * i)) = Some Auto \<and>
       actor_y (A ! (m + 1 + 2 * i)) = 0.3 + 0.5 * real i \<and>
       parentId (A ! (m + 2 + 2 * i)) = Some m \<and>
       shown_text (A ! (m + 2 + 2 * i)) = Some (displayName (snd (Object_entries db ! i))) \<and>
       actor_y (A ! (m + 2 + 2 * i)) = 0.3 + 0.5 * real i"
      unfolding button [OF i] label [OF i] using bf [of i] lf [of i] by blast
  qed
  have incr: "\<forall>i j. i < j \<and> j < length db \<longrightarrow>
       actor_y (A ! (m + 1 + 2 * i)) < actor_y (A ! (m + 1 + 2 * j))"
  proof (intro allI impI)
    fix i j assume ij: "i < j \<and> j < length db"
    then have i: "i < length db" and j: "j < length db"
      by simp_all
    have "actor_y (?b i) < actor_y (?b j)"
      using ij bf [of i] bf [of j] by simp
    then show "actor_y (A ! (m + 1 + 2 * i)) < actor_y (A ! (m + 1 + 2 * j))"
      unfolding button [OF i] button [OF j] .
  qed
  have tt: "parentId (A ! (m + 1 + 2 * length db)) = Some m \<and>
    shown_text (A ! (m + 1 + 2 * length db)) = Some ''        Wear a Hat''"
    unfolding title using tf by blast
  have above: "\<forall>i<length db. actor_y (A ! (m + 2 + 2 * i)) < actor_y (A ! (m + 1 + 2 * length db))"
  proof (intro allI impI)
    fix i assume i: "i < length db"
    have "actor_y (?l i) < actor_y ?T"
      using i lf [of i] tf by simp
    then show "actor_y (A ! (m + 2 + 2 * i)) < actor_y (A ! (m + 1 + 2 * length db))"
      unfolding label [OF i] title .
  qed
  have plain: "(\<forall>k \<in> set (map fst db). \<not> is_array_index k) \<longrightarrow>
       Object_entries db = db \<and> Object_keys db = map fst db"
    using Object_entries_plain [of db] by (simp add: Object_keys_def)
  show ?thesis
    using ok A H entries incr tt above plain by blast
qed

section \<open>Preloading and the order of events\<close>

lemma preload_map_entries:
  assumes "\<forall>e \<in> set es. lookup (HatDatabase s) (fst e) = Some (snd e)"
  shows "preload_map s (map fst es) = Inr (map (entry_promise (baseUrl s)) es)"
  using assms by (induction es) (simp_all add: read_property_def)

lemma preloadHats_entries:
  assumes "distinct (map fst (HatDatabase s))"
  shows "preloadHats s = Inr (map (entry_promise (baseUrl s)) (Object_entries (HatDatabase s)))"
proof -
  have "\<forall>e \<in> set (Object_entries (HatDatabase s)).
      lookup (HatDatabase s) (fst e) = Some (snd e)"
    using assms by (simp add: lookup_entry)
  then show ?thesis
    by (simp add: preloadHats_def Object_keys_def preload_map_entries)
qed

lemma entry_promise_state:
  "hp_state (entry_promise url (k, r)) \<noteq> Rejected"
  "hp_hatId (entry_promise url (k, r)) = k"
  "hp_state (entry_promise url (k, r)) = Pending \<longleftrightarrow> truthy (resourceName r)"
  by (simp_all add: entry_promise_def)

lemma preload_map_promises:
  assumes "preload_map s ks = Inr ps" and "p \<in> set ps"
  shows "hp_state p \<noteq> Rejected \<and>
         (hp_state p = Pending \<longrightarrow> has_resource (HatDatabase s) (hp_hatId p))"
  using assms
proof (induction ks arbitrary: ps)
  case Nil
  then show ?case by simp
next
  case (Cons k ks)
  from Cons.prems(1) obtain q qs where qs: "preload_map s ks = Inr qs" and ps: "ps = q # qs"
    and q: "q = \<lparr>hp_hatId = k, hp_url = None, hp_state = Fulfilled\<rparr> \<or>
      (\<exists>r. lookup (HatDatabase s) k = Some r \<and> q = entry_promise (baseUrl s) (k, r))"
    by (auto simp: read_property_def split: option.splits sum.splits if_splits)
  show ?case
  proof (cases "p = q")
    case True
    then show ?thesis
      using q by (auto simp: entry_promise_state has_resource_def)
  next
    case False
    then have "p \<in> set qs"
      using Cons.prems(2) ps by simp
    then show ?thesis
      by (rule Cons.IH [OF qs])
  qed
qed

lemma then_handler_frame [simp]:
  "HatDatabase (then_handler k assets s) = HatDatabase s"
  "baseUrl (then_handler k assets s) = baseUrl s"
  "ctx (then_handler k assets s) = ctx s"
  "attachedHats (then_handler k assets s) = attachedHats s"
  "error_log (then_handler k assets s) = error_log s"
  by (simp_all add: then_handler_def split: option.splits)

lemma then_handler_prefabs:
  assumes "prefabs s k = None"
  shows "prefabs (then_handler k assets s) = (prefabs s)(k := find prefab_not_null assets)"
proof (cases "find prefab_not_null assets")
  case None
  have "(prefabs s)(k := None) = prefabs s"
    using assms by (simp add: fun_upd_idem)
  then show ?thesis
    using None by (simp add: then_handler_def)
next
  case (Some a)
  then show ?thesis
    by (simp add: then_handler_def)
qed

lemma then_handler_entries:
  assumes "prefabs (then_handler k assets s) j \<noteq> None"
  shows "prefabs s j \<noteq> None \<or> j = k"
  using assms by (auto simp: then_handler_def split: option.splits if_splits)

lemma menu_loop_frame:
  "HatDatabase (snd (snd (menu_loop menu mesh ks y s))) = HatDatabase s \<and>
   prefabs (snd (snd (menu_loop menu mesh ks y s))) = prefabs s"
proof (induction ks arbitrary: y s)
  case Nil
  then show ?case by simp
next
  case (Cons k ks)
  show ?case
  proof (cases "read_property (lookup (HatDatabase s)) k")
    case Undefined
    then show ?thesis
      by (simp add: Actor_Create_def setBehavior_onClick_def)
  next
    case Inherited
    then show ?thesis
      by (simp add: Actor_Create_def setBehavior_onClick_def Cons.IH)
  next
    case (Own r)
    then show ?thesis
      by (simp add: Actor_Create_def setBehavior_onClick_def Cons.IH)
  qed
qed

lemma showHatMenu_frame:
  "HatDatabase (snd (showHatMenu s)) = HatDatabase s \<and>
   prefabs (snd (showHatMenu s)) = prefabs s"
proof -
  define s0 where "s0 = s\<lparr>ctx := (ctx s)
      \<lparr>actors := actors (ctx s) @ [no_fields],
       meshes := meshes (ctx s) @
         [\<lparr>mesh_name = ''button'', mesh_width = 0.3, mesh_height = 0.3, mesh_depth = 0.01\<rparr>]\<rparr>\<rparr>"
  have start: "showHatMenu s =
     (case menu_loop (length (actors (ctx s))) (length (meshes (ctx s)))
             (Object_keys (HatDatabase s)) 0.3 s0 of
        (Some e, y, s1) \<Rightarrow> (Some e, s1)
      | (None, y, s1) \<Rightarrow>
          let (title, c3) = Actor_Create (menu_title (length (actors (ctx s))) y) (ctx s1)
          in (None, s1\<lparr>ctx := c3\<rparr>))"
    by (simp add: showHatMenu_def Actor_Create_def createBoxMesh_def s0_def)
  obtain r y s1 where loop: "menu_loop (length (actors (ctx s))) (length (meshes (ctx s)))
      (Object_keys (HatDatabase s)) 0.3 s0 = (r, y, s1)"
    by (metis prod_cases3)
  have "HatDatabase s1 = HatDatabase s0 \<and> prefabs s1 = prefabs s0"
    using menu_loop_frame [of "length (actors (ctx s))" "length (meshes (ctx s))"
        "Object_keys (HatDatabase s)" "0.3" s0]
    unfolding loop by simp
  then have "HatDatabase s1 = HatDatabase s \<and> prefabs s1 = prefabs s"
    by (simp add: s0_def)
  then show ?thesis
    unfolding start loop
    by (cases r) (simp_all add: Actor_Create_def)
qed

lemma Promise_all_Fulfilled:
  "Promise_all qs = Fulfilled \<longleftrightarrow> (\<forall>q \<in> set qs. q = Fulfilled)"
proof -
  have "q = Fulfilled" if "Rejected \<notin> set qs" "Pending \<notin> set qs" "q \<in> set qs" for q
    using that by (cases q) auto
  then show ?thesis
    by (auto simp: Promise_all_def)
qed

lemma Promise_all_Rejected: "Promise_all qs = Rejected \<longleftrightarrow> Rejected \<in> set qs"
  by (simp add: Promise_all_def)

lemma settle_promises:
  assumes "p \<in> set (promises (settle i \<sigma>))"
  shows "p \<in> set (promises \<sigma>) \<or> hp_state p = Fulfilled"
proof -
  have "p \<in> insert ((promises \<sigma> ! i)\<lparr>hp_state := Fulfilled\<rparr>) (set (promises \<sigma>))"
    using assms set_update_subset_insert [of "promises \<sigma>" i] by (auto simp: settle_def)
  then show ?thesis by auto
qed

lemma settle_fields [simp]:
  "app (settle i \<sigma>) = app \<sigma>"
  "phase (settle i \<sigma>) = phase \<sigma>"
  by (simp_all add: settle_def)

lemma pending_not_settled:
  assumes "i < length (promises \<sigma>)" and "hp_state (promises \<sigma> ! i) = Pending"
  shows "\<not> loads_settled \<sigma>" and "promises \<sigma> \<noteq> []"
proof -
  have "promises \<sigma> ! i \<in> set (promises \<sigma>)"
    using assms(1) by simp
  then show "\<not> loads_settled \<sigma>"
    using assms(2)
    by (auto simp: loads_settled_def list_all_iff intro!: bexI [of _ "promises \<sigma> ! i"])
  show "promises \<sigma> \<noteq> []"
    using assms(1) by auto
qed

lemma session_inv_settle:
  assumes "session_inv \<sigma>" and "i < length (promises \<sigma>)"
    and "hp_state (promises \<sigma> ! i) = Pending"
    and "clickHandlers (ctx s) = clickHandlers (ctx (app \<sigma>))"
  shows "session_inv (settle i (\<sigma>\<lparr>app := s\<rparr>))"
proof -
  have ph: "phase \<sigma> = AwaitingPreload"
    using assms(1) pending_not_settled [OF assms(2,3)]
    by (cases "phase \<sigma>") (auto simp: session_inv_def)
  have "hp_state p \<noteq> Rejected" if "p \<in> set (promises (settle i (\<sigma>\<lparr>app := s\<rparr>)))" for p
    using settle_promises [OF that] assms(1) by (auto simp: session_inv_def)
  then show ?thesis
    using assms(1,4) ph by (simp add: session_inv_def)
qed

lemma step_session_inv:
  assumes "step sdk e \<sigma> = Some \<sigma>'" and "session_inv \<sigma>"
  shows "session_inv \<sigma>'"
proof (cases e)
  case SessionStarted
  show ?thesis
  proof (cases "preloadHats (app \<sigma>)")
    case (Inl err)
    then show ?thesis
      using assms SessionStarted
      by (auto simp: session_inv_def loads_settled_def split: if_splits)
  next
    case (Inr ps)
    then have "\<forall>p \<in> set ps. hp_state p \<noteq> Rejected"
      using preload_map_promises by (auto simp: preloadHats_def)
    then show ?thesis
      using assms SessionStarted Inr
      by (auto simp: session_inv_def split: if_splits)
  qed
next
  case (LoadSucceeded i assets)
  then show ?thesis
    using assms session_inv_settle [of \<sigma> i "then_handler (hp_hatId (promises \<sigma> ! i)) assets (app \<sigma>)"]
    by (auto split: if_splits)
next
  case (LoadFailed i err)
  then show ?thesis
    using assms session_inv_settle [of \<sigma> i "catch_handler err (app \<sigma>)"]
    by (auto simp: catch_handler_def split: if_splits)
next
  case PreloadSettled
  have ph: "phase \<sigma> = AwaitingPreload"
    using assms(1) PreloadSettled by (auto split: if_splits)
  have norej: "Promise_all (map hp_state (promises \<sigma>)) \<noteq> Rejected"
    using assms(2) by (auto simp: Promise_all_Rejected session_inv_def)
  have full: "Promise_all (map hp_state (promises \<sigma>)) = Fulfilled"
    using assms(1) PreloadSettled ph norej
    by (cases "Promise_all (map hp_state (promises \<sigma>))") auto
  then have settled: "loads_settled \<sigma>"
    by (auto simp: Promise_all_Fulfilled loads_settled_def list_all_iff)
  obtain r s1 where menu: "showHatMenu (app \<sigma>) = (r, s1)"
    by (cases "showHatMenu (app \<sigma>)")
  have "\<sigma>' = \<sigma>\<lparr>app := s1, phase := (if r = None then MenuShown else StartFailed)\<rparr>"
    using assms(1) PreloadSettled ph full menu by (cases r) auto
  then show ?thesis
    using assms(2) settled by (auto simp: session_inv_def loads_settled_def)
next
  case (ButtonClicked b uid)
  then show ?thesis
    using assms
    by (auto simp: session_inv_def loads_settled_def split: option.splits)
next
  case (UserLeftEvent uid)
  then show ?thesis
    using assms
    by (auto simp: session_inv_def loads_settled_def userLeft_def)
qed

lemma run_session_inv:
  assumes "run sdk evs \<sigma> = Some \<sigma>'" and "session_inv \<sigma>"
  shows "session_inv \<sigma>'"
  using assms
proof (induction evs arbitrary: \<sigma>)
  case Nil
  then show ?case by simp
next
  case (Cons e evs)
  from Cons.prems(1) obtain \<sigma>1 where s1: "step sdk e \<sigma> = Some \<sigma>1"
    and rest: "run sdk evs \<sigma>1 = Some \<sigma>'"
    by (auto split: option.splits)
  show ?case
    by (rule Cons.IH [OF rest step_session_inv [OF s1 Cons.prems(2)]])
qed

lemma session_inv_new: "session_inv (new_Session db url)"
  by (simp add: session_inv_def new_Session_def new_WearAHat_def)

lemma prefabs_inv_settle:
  assumes "prefabs_inv db \<sigma>" and "HatDatabase s = db"
    and "\<forall>k. prefabs s k \<noteq> None \<longrightarrow> has_resource db k"
  shows "prefabs_inv db (settle i (\<sigma>\<lparr>app := s\<rparr>))"
proof -
  have "has_resource db (hp_hatId p)"
    if "p \<in> set (promises (settle i (\<sigma>\<lparr>app := s\<rparr>)))" "hp_state p = Pending" for p
    using settle_promises [OF that(1)] that(2) assms(1) by (auto simp: prefabs_inv_def)
  then show ?thesis
    using assms by (simp add: prefabs_inv_def)
qed

lemma step_prefabs_inv:
  assumes "step sdk e \<sigma> = Some \<sigma>'" and "prefabs_inv db \<sigma>"
  shows "prefabs_inv db \<sigma>'"
proof (cases e)
  case SessionStarted
  show ?thesis
  proof (cases "preloadHats (app \<sigma>)")
    case (Inl err)
    then show ?thesis
      using assms SessionStarted by (auto simp: prefabs_inv_def split: if_splits)
  next
    case (Inr ps)
    then have "\<forall>p \<in> set ps. hp_state p = Pending \<longrightarrow> has_resource (HatDatabase (app \<sigma>)) (hp_hatId p)"
      using preload_map_promises by (auto simp: preloadHats_def)
    then show ?thesis
      using assms SessionStarted Inr by (auto simp: prefabs_inv_def split: if_splits)
  qed
next
  case (LoadSucceeded i assets)
  have "prefabs_inv db (settle i (\<sigma>\<lparr>app := then_handler (hp_hatId (promises \<sigma> ! i)) assets (app \<sigma>)\<rparr>))"
    if "i < length (promises \<sigma>)" "hp_state (promises \<sigma> ! i) = Pending"
  proof (rule prefabs_inv_settle [OF assms(2)])
    show "HatDatabase (then_handler (hp_hatId (promises \<sigma> ! i)) assets (app \<sigma>)) = db"
      using assms(2) by (simp add: prefabs_inv_def)
    have "promises \<sigma> ! i \<in> set (promises \<sigma>)"
      using that(1) by simp
    then have "has_resource db (hp_hatId (promises \<sigma> ! i))"
      using assms(2) that(2) by (auto simp: prefabs_inv_def)
    then show "\<forall>k. prefabs (then_handler (hp_hatId (promises \<sigma> ! i)) assets (app \<sigma>)) k \<noteq> None
        \<longrightarrow> has_resource db k"
      using assms(2) then_handler_entries [of "hp_hatId (promises \<sigma> ! i)" assets "app \<sigma>"]
      by (auto simp: prefabs_inv_def)
  qed
  then show ?thesis
    using assms(1) LoadSucceeded by (auto split: if_splits)
next
  case (LoadFailed i err)
  have "prefabs_inv db (settle i (\<sigma>\<lparr>app := catch_handler err (app \<sigma>)\<rparr>))"
    using assms(2) by (intro prefabs_inv_settle) (auto simp: catch_handler_def prefabs_inv_def)
  then show ?thesis
    using assms(1) LoadFailed by (auto split: if_splits)
next
  case PreloadSettled
  obtain r s1 where menu: "showHatMenu (app \<sigma>) = (r, s1)"
    by (cases "showHatMenu (app \<sigma>)")
  have "HatDatabase s1 = HatDatabase (app \<sigma>) \<and> prefabs s1 = prefabs (app \<sigma>)"
    using showHatMenu_frame [of "app \<sigma>"] by (simp add: menu)
  then show ?thesis
    using assms PreloadSettled menu
    by (cases r; cases "Promise_all (map hp_state (promises \<sigma>))")
       (auto simp: prefabs_inv_def split: if_splits)
next
  case (ButtonClicked b uid)
  then show ?thesis
    using assms by (auto simp: prefabs_inv_def split: option.splits)
next
  case (UserLeftEvent uid)
  then show ?thesis
    using assms by (auto simp: prefabs_inv_def userLeft_def)
qed

lemma run_prefabs_inv:
  assumes "run sdk evs \<sigma> = Some \<sigma>'" and "prefabs_inv db \<sigma>"
  shows "prefabs_inv db \<sigma>'"
  using assms
proof (induction evs arbitrary: \<sigma>)
  case Nil
  then show ?case by simp
next
  case (Cons e evs)
  from Cons.prems(1) obtain \<sigma>1 where s1: "step sdk e \<sigma> = Some \<sigma>1"
    and rest: "run sdk evs \<sigma>1 = Some \<sigma>'"
    by (auto split: option.splits)
  show ?case
    by (rule Cons.IH [OF rest step_prefabs_inv [OF s1 Cons.prems(2)]])
qed

lemma prefabs_inv_new: "prefabs_inv db (new_Session db url)"
  by (simp add: prefabs_inv_def new_Session_def new_WearAHat_def)

lemma step_started_ok:
  assumes "phase \<sigma> = NotStarted" and "distinct (map fst (HatDatabase (app \<sigma>)))"
  shows "step sdk SessionStarted \<sigma> =
     Some (\<sigma>\<lparr>promises := map (entry_promise (baseUrl (app \<sigma>)))
                (Object_entries (HatDatabase (app \<sigma>))),
              phase := AwaitingPreload\<rparr>)"
  using assms by (simp add: preloadHats_entries)

lemma settle_hatIds [simp]:
  "map hp_hatId (promises (settle i \<sigma>)) = map hp_hatId (promises \<sigma>)"
  by (cases "i < length (promises \<sigma>)")
     (simp_all add: settle_def map_update list_update_same_conv list_update_beyond)

lemma settle_keeps:
  assumes "p \<in> set (promises \<sigma>)" and "hp_state p = Fulfilled"
    and "i < length (promises \<sigma>)"
  shows "\<exists>q \<in> set (promises (settle i \<sigma>)). hp_hatId q = hp_hatId p \<and> hp_state q = Fulfilled"
proof -
  from assms(1) obtain j where j: "j < length (promises \<sigma>)" "promises \<sigma> ! j = p"
    by (auto simp: in_set_conv_nth)
  have len: "j < length (promises (settle i \<sigma>))"
    using j(1) by (simp add: settle_def)
  have "hp_hatId (promises (settle i \<sigma>) ! j) = hp_hatId p \<and>
        hp_state (promises (settle i \<sigma>) ! j) = Fulfilled"
    using j assms(2,3) by (cases "i = j") (simp_all add: settle_def)
  then show ?thesis
    using len nth_mem by blast
qed

lemma settle_self:
  assumes "i < length (promises \<sigma>)"
  shows "\<exists>q \<in> set (promises (settle i \<sigma>)).
           hp_hatId q = hp_hatId (promises \<sigma> ! i) \<and> hp_state q = Fulfilled"
proof -
  have "promises (settle i \<sigma>) ! i = (promises \<sigma> ! i)\<lparr>hp_state := Fulfilled\<rparr>"
    using assms by (simp add: settle_def)
  moreover have "i < length (promises (settle i \<sigma>))"
    using assms by (simp add: settle_def)
  ultimately show ?thesis
    by (metis hat_promise.select_convs(1,3) hat_promise.surjective hat_promise.update_convs(3)
        nth_mem)
qed

lemma loads_inv_settle:
  assumes "loads_inv \<sigma>" and "i < length (promises \<sigma>)"
    and "\<forall>k. prefabs s k \<noteq> None \<longrightarrow>
           prefabs (app \<sigma>) k \<noteq> None \<or> k = hp_hatId (promises \<sigma> ! i)"
  shows "loads_inv (settle i (\<sigma>\<lparr>app := s\<rparr>))"
proof -
  let ?\<tau> = "\<sigma>\<lparr>app := s\<rparr>"
  have len: "i < length (promises ?\<tau>)"
    using assms(2) by simp
  have "\<exists>q \<in> set (promises (settle i ?\<tau>)). hp_hatId q = k \<and> hp_state q = Fulfilled"
    if "prefabs s k \<noteq> None" for k
  proof (cases "prefabs (app \<sigma>) k \<noteq> None")
    case True
    then obtain p where "p \<in> set (promises ?\<tau>)" "hp_hatId p = k" "hp_state p = Fulfilled"
      using assms(1) by (auto simp: loads_inv_def)
    then show ?thesis
      using settle_keeps [OF _ _ len, of p] by auto
  next
    case False
    then have "k = hp_hatId (promises ?\<tau> ! i)"
      using assms(3) that by auto
    then show ?thesis
      using settle_self [OF len] by simp
  qed
  moreover have "promises \<sigma> \<noteq> []"
    using assms(2) by auto
  ultimately show ?thesis
    using assms(1) by (auto simp: loads_inv_def)
qed

lemma step_loads_inv:
  assumes "step sdk e \<sigma> = Some \<sigma>'" and "loads_inv \<sigma>"
    and "distinct (map fst (HatDatabase (app \<sigma>)))"
  shows "loads_inv \<sigma>'"
proof (cases e)
  case SessionStarted
  have ph: "phase \<sigma> = NotStarted"
    using assms(1) SessionStarted by (auto split: if_splits)
  then have empty: "\<forall>k. prefabs (app \<sigma>) k = None"
    using assms(2) by (auto simp: loads_inv_def)
  have "map hp_hatId (map (entry_promise (baseUrl (app \<sigma>)))
          (Object_entries (HatDatabase (app \<sigma>)))) =
        Object_keys (HatDatabase (app \<sigma>))"
    by (simp add: Object_keys_def entry_promise_def)
  then have "distinct (map hp_hatId (map (entry_promise (baseUrl (app \<sigma>)))
          (Object_entries (HatDatabase (app \<sigma>)))))"
    using distinct_Object_keys [OF assms(3)] by (simp only:)
  then show ?thesis
    using assms(1) ph empty unfolding SessionStarted step_started_ok [OF ph assms(3)]
    by (auto simp: loads_inv_def)
next
  case (LoadSucceeded i assets)
  have "loads_inv (settle i (\<sigma>\<lparr>app := then_handler (hp_hatId (promises \<sigma> ! i)) assets (app \<sigma>)\<rparr>))"
    if "i < length (promises \<sigma>)"
    by (rule loads_inv_settle [OF assms(2) that]) (use then_handler_entries in blast)
  then show ?thesis
    using assms(1) LoadSucceeded by (auto split: if_splits)
next
  case (LoadFailed i err)
  have "loads_inv (settle i (\<sigma>\<lparr>app := catch_handler err (app \<sigma>)\<rparr>))"
    if "i < length (promises \<sigma>)"
    by (rule loads_inv_settle [OF assms(2) that]) (simp add: catch_handler_def)
  then show ?thesis
    using assms(1) LoadFailed by (auto split: if_splits)
next
  case PreloadSettled
  obtain r s1 where menu: "showHatMenu (app \<sigma>) = (r, s1)"
    by (cases "showHatMenu (app \<sigma>)")
  have "prefabs s1 = prefabs (app \<sigma>)"
    using showHatMenu_frame [of "app \<sigma>"] by (simp add: menu)
  then show ?thesis
    using assms(1,2) PreloadSettled menu
    by (cases r; cases "Promise_all (map hp_state (promises \<sigma>))")
       (auto simp: loads_inv_def split: if_splits)
next
  case (ButtonClicked b uid)
  then show ?thesis
    using assms(1,2) by (auto simp: loads_inv_def split: option.splits)
next
  case (UserLeftEvent uid)
  then show ?thesis
    using assms(1,2) by (auto simp: loads_inv_def userLeft_def)
qed

lemma run_loads_inv:
  assumes "run sdk evs \<sigma> = Some \<sigma>'" and "loads_inv \<sigma>" and "prefabs_inv db \<sigma>"
    and "distinct (map fst db)"
  shows "loads_inv \<sigma>'"
  using assms(1,2,3)
proof (induction evs arbitrary: \<sigma>)
  case Nil
  then show ?case by simp
next
  case (Cons e evs)
  from Cons.prems(1) obtain \<sigma>1 where s1: "step sdk e \<sigma> = Some \<sigma>1"
    and rest: "run sdk evs \<sigma>1 = Some \<sigma>'"
    by (auto split: option.splits)
  have d: "distinct (map fst (HatDatabase (app \<sigma>)))"
    using Cons.prems(3) assms(4) by (simp add: prefabs_inv_def)
  show ?case
    by (rule Cons.IH [OF rest step_loads_inv [OF s1 Cons.prems(2) d]
          step_prefabs_inv [OF s1 Cons.prems(3)]])
qed

lemma loads_inv_new: "loads_inv (new_Session db url)"
  by (simp add: loads_inv_def new_Session_def new_WearAHat_def)

lemma pending_absent:
  assumes "loads_inv \<sigma>" and "i < length (promises \<sigma>)"
    and "hp_state (promises \<sigma> ! i) = Pending"
  shows "prefabs (app \<sigma>) (hp_hatId (promises \<sigma> ! i)) = None"
proof (rule ccontr)
  assume "prefabs (app \<sigma>) (hp_hatId (promises \<sigma> ! i)) \<noteq> None"
  then obtain p where p: "p \<in> set (promises \<sigma>)" "hp_hatId p = hp_hatId (promises \<sigma> ! i)"
    "hp_state p = Fulfilled"
    using assms(1) by (auto simp: loads_inv_def)
  then obtain j where j: "j < length (promises \<sigma>)" "promises \<sigma> ! j = p"
    by (auto simp: in_set_conv_nth)
  have "map hp_hatId (promises \<sigma>) ! j = map hp_hatId (promises \<sigma>) ! i"
    using j p(2) assms(2) by simp
  moreover have "distinct (map hp_hatId (promises \<sigma>))"
    using assms(1) by (simp add: loads_inv_def)
  ultimately have "j = i"
    using assms(2) j(1) nth_eq_iff_index_eq [of "map hp_hatId (promises \<sigma>)" j i]
    by simp
  then show False
    using j(2) p(3) assms(3) by simp
qed

lemma step_settled_ok:
  assumes "phase \<sigma> = AwaitingPreload" and "loads_settled \<sigma>"
    and "distinct (map fst (HatDatabase (app \<sigma>)))"
  shows "step sdk PreloadSettled \<sigma> =
     Some (\<sigma>\<lparr>app := snd (showHatMenu (app \<sigma>)), phase := MenuShown\<rparr>)"
proof -
  have "Promise_all (map hp_state (promises \<sigma>)) = Fulfilled"
    using assms(2) by (auto simp: Promise_all_Fulfilled loads_settled_def list_all_iff)
  moreover obtain s1 where "showHatMenu (app \<sigma>) = (None, s1)"
    by (rule that [OF showHatMenu_result [OF assms(3)]])
  ultimately show ?thesis
    using assms(1) by simp
qed

text \<open>Claim C8.  In every state reached from a new session by any events: if a click handler
  is registered, or the menu is shown, or a click on some button can be dispatched, then
  the loads are settled, that is, the promise of every hat is fulfilled; and
  \<^verbatim>\<open>started\<close> can resume after its \<^verbatim>\<open>await\<close>, which is the only place where the menu is
  built, only in a state where the loads are settled and no click handler is registered
  yet.\<close>

theorem menu_after_preload:
  assumes "run sdk evs (new_Session db url) = Some \<sigma>"
  shows "(clickHandlers (ctx (app \<sigma>)) \<noteq> [] \<longrightarrow> loads_settled \<sigma>) \<and>
         (phase \<sigma> = MenuShown \<longrightarrow> loads_settled \<sigma>) \<and>
         (\<forall>b u. step sdk (ButtonClicked b u) \<sigma> \<noteq> None \<longrightarrow> loads_settled \<sigma>) \<and>
         (\<forall>\<sigma>'. step sdk PreloadSettled \<sigma> = Some \<sigma>' \<longrightarrow> loads_settled \<sigma>) \<and>
         (\<forall>\<sigma>'. step sdk PreloadSettled \<sigma> = Some \<sigma>' \<longrightarrow>
            clickHandlers (ctx (app \<sigma>)) = [])"
proof -
  have inv: "session_inv \<sigma>"
    by (rule run_session_inv [OF assms session_inv_new])
  have handlers: "loads_settled \<sigma>" if "clickHandlers (ctx (app \<sigma>)) \<noteq> []"
    using inv that by (cases "phase \<sigma>") (auto simp: session_inv_def)
  have shown: "loads_settled \<sigma>" if "phase \<sigma> = MenuShown"
    using inv that by (simp add: session_inv_def)
  have click: "loads_settled \<sigma>" if "step sdk (ButtonClicked b u) \<sigma> \<noteq> None" for b u
  proof -
    have "map_of (clickHandlers (ctx (app \<sigma>))) b \<noteq> None"
      using that by (auto split: option.splits)
    then have "clickHandlers (ctx (app \<sigma>)) \<noteq> []"
      by auto
    then show ?thesis by (rule handlers)
  qed
  have resume: "loads_settled \<sigma> \<and> clickHandlers (ctx (app \<sigma>)) = []"
    if "step sdk PreloadSettled \<sigma> = Some \<sigma>'" for \<sigma>'
  proof -
    have ph: "phase \<sigma> = AwaitingPreload"
      using that by (auto split: if_splits)
    have "Promise_all (map hp_state (promises \<sigma>)) \<noteq> Rejected"
      using inv by (auto simp: Promise_all_Rejected session_inv_def)
    then have "Promise_all (map hp_state (promises \<sigma>)) = Fulfilled"
      using that ph by (cases "Promise_all (map hp_state (promises \<sigma>))") auto
    then have "loads_settled \<sigma>"
      by (auto simp: Promise_all_Fulfilled loads_settled_def list_all_iff)
    then show ?thesis
      using inv ph by (simp add: session_inv_def)
  qed
  show ?thesis
    using handlers shown click resume by blast
qed

text \<open>Claim C5.  Let the catalog \<open>db\<close> have distinct keys and let \<open>\<sigma>\<close> be a state reached from
  a new session by any events.  When the session starts, \<^verbatim>\<open>preloadHats\<close> makes one promise
  per catalog entry, in the order in which \<^verbatim>\<open>Object.keys\<close> lists the keys: for an entry
  with a truthy \<^verbatim>\<open>resourceName\<close> a load of \<^verbatim>\<open>baseUrl/resourceName\<close> is issued and its promise is pending;
  for any other entry no load is issued and the promise is fulfilled at once.  When a
  pending load succeeds, the first asset of the result whose prefab is not null is stored
  in the prefab table under the hat id, nothing is logged, only this promise changes, to
  fulfilled, and the start-up goes on.  When a pending load fails, the error is logged,
  the prefab table is unchanged and has no entry for the hat id, only this promise
  changes, to fulfilled, and the start-up goes on.  A hat id without a resource never has
  an entry in the prefab table; the joined promise is never rejected; and once every
  promise is fulfilled, \<^verbatim>\<open>started\<close> resumes and the menu is shown.\<close>

theorem preloadHats_loads:
  assumes "distinct (map fst db)"
    and "run sdk evs (new_Session db url) = Some \<sigma>"
  shows "step sdk SessionStarted (new_Session db url) =
           Some ((new_Session db url)\<lparr>promises := map (entry_promise url) (Object_entries db),
                                      phase := AwaitingPreload\<rparr>) \<and>
         (\<forall>e \<in> set db.
            (truthy (resourceName (snd e)) \<longrightarrow>
               hp_state (entry_promise url e) = Pending \<and>
               hp_url (entry_promise url e) = Some (url @ ''/'' @ template (resourceName (snd e)))) \<and>
            (\<not> truthy (resourceName (snd e)) \<longrightarrow>
               hp_state (entry_promise url e) = Fulfilled \<and> hp_url (entry_promise url e) = None)) \<and>
         (\<forall>i assets. i < length (promises \<sigma>) \<and> hp_state (promises \<sigma> ! i) = Pending \<longrightarrow>
            (\<exists>\<sigma>'. step sdk (LoadSucceeded i assets) \<sigma> = Some \<sigma>' \<and>
               prefabs (app \<sigma>') =
                 (prefabs (app \<sigma>))(hp_hatId (promises \<sigma> ! i) := find prefab_not_null assets) \<and>
               error_log (app \<sigma>') = error_log (app \<sigma>) \<and>
               promises \<sigma>' = (promises \<sigma>)[i := (promises \<sigma> ! i)\<lparr>hp_state := Fulfilled\<rparr>] \<and>
               phase \<sigma>' = phase \<sigma>)) \<and>
         (\<forall>i err. i < length (promises \<sigma>) \<and> hp_state (promises \<sigma> ! i) = Pending \<longrightarrow>
            (\<exists>\<sigma>'. step sdk (LoadFailed i err) \<sigma> = Some \<sigma>' \<and>
               prefabs (app \<sigma>') = prefabs (app \<sigma>) \<and>
               prefabs (app \<sigma>') (hp_hatId (promises \<sigma> ! i)) = None \<and>
               error_log (app \<sigma>') = error_log (app \<sigma>) @ [err] \<and>
               promises \<sigma>' = (promises \<sigma>)[i := (promises \<sigma> ! i)\<lparr>hp_state := Fulfilled\<rparr>] \<and>
               phase \<sigma>' = phase \<sigma>)) \<and>
         (\<forall>hatId. \<not> has_resource db hatId \<longrightarrow> prefabs (app \<sigma>) hatId = None) \<and>
         Promise_all (map hp_state (promises \<sigma>)) \<noteq> Rejected \<and>
         (phase \<sigma> = AwaitingPreload \<and> loads_settled \<sigma> \<longrightarrow>
            step sdk PreloadSettled \<sigma> =
              Some (\<sigma>\<lparr>app := snd (showHatMenu (app \<sigma>)), phase := MenuShown\<rparr>))"
proof -
  have start: "step sdk SessionStarted (new_Session db url) =
           Some ((new_Session db url)\<lparr>promises := map (entry_promise url) (Object_entries db),
                                      phase := AwaitingPreload\<rparr>)"
    using step_started_ok [of "new_Session db url" sdk] assms(1)
    by (simp add: new_Session_def new_WearAHat_def)
  have entries: "\<forall>e \<in> set db.
            (truthy (resourceName (snd e)) \<longrightarrow>
               hp_state (entry_promise url e) = Pending \<and>
               hp_url (entry_promise url e) = Some (url @ ''/'' @ template (resourceName (snd e)))) \<and>
            (\<not> truthy (resourceName (snd e)) \<longrightarrow>
               hp_state (entry_promise url e) = Fulfilled \<and> hp_url (entry_promise url e) = None)"
    by (simp add: entry_promise_def)
  have pinv: "prefabs_inv db \<sigma>"
    by (rule run_prefabs_inv [OF assms(2) prefabs_inv_new])
  have "loads_inv \<sigma>"
    by (rule run_loads_inv [OF assms(2) loads_inv_new prefabs_inv_new assms(1)])
  then have absent: "prefabs (app \<sigma>) (hp_hatId (promises \<sigma> ! i)) = None"
    if "i < length (promises \<sigma>)" "hp_state (promises \<sigma> ! i) = Pending" for i
    using that by (rule pending_absent)
  have ok: "\<forall>i assets. i < length (promises \<sigma>) \<and> hp_state (promises \<sigma> ! i) = Pending \<longrightarrow>
            (\<exists>\<sigma>'. step sdk (LoadSucceeded i assets) \<sigma> = Some \<sigma>' \<and>
               prefabs (app \<sigma>') =
                 (prefabs (app \<sigma>))(hp_hatId (promises \<sigma> ! i) := find prefab_not_null assets) \<and>
               error_log (app \<sigma>') = error_log (app \<sigma>) \<and>
               promises \<sigma>' = (promises \<sigma>)[i := (promises \<sigma> ! i)\<lparr>hp_state := Fulfilled\<rparr>] \<and>
               phase \<sigma>' = phase \<sigma>)"
    using absent by (simp add: then_handler_prefabs settle_def)
  have failed: "\<forall>i err. i < length (promises \<sigma>) \<and> hp_state (promises \<sigma> ! i) = Pending \<longrightarrow>
            (\<exists>\<sigma>'. step sdk (LoadFailed i err) \<sigma> = Some \<sigma>' \<and>
               prefabs (app \<sigma>') = prefabs (app \<sigma>) \<and>
               prefabs (app \<sigma>') (hp_hatId (promises \<sigma> ! i)) = None \<and>
               error_log (app \<sigma>') = error_log (app \<sigma>) @ [err] \<and>
               promises \<sigma>' = (promises \<sigma>)[i := (promises \<sigma> ! i)\<lparr>hp_state := Fulfilled\<rparr>] \<and>
               phase \<sigma>' = phase \<sigma>)"
    using absent by (simp add: catch_handler_def settle_def)
  have "prefabs_inv db \<sigma>"
    by (rule pinv)
  then have table: "\<forall>hatId. \<not> has_resource db hatId \<longrightarrow> prefabs (app \<sigma>) hatId = None"
    by (auto simp: prefabs_inv_def)
  have "session_inv \<sigma>"
    by (rule run_session_inv [OF assms(2) session_inv_new])
  then have norej: "Promise_all (map hp_state (promises \<sigma>)) \<noteq> Rejected"
    by (auto simp: Promise_all_Rejected session_inv_def)
  have "distinct (map fst (HatDatabase (app \<sigma>)))"
    using pinv assms(1) by (simp add: prefabs_inv_def)
  then have resume: "phase \<sigma> = AwaitingPreload \<and> loads_settled \<sigma> \<longrightarrow>
            step sdk PreloadSettled \<sigma> =
              Some (\<sigma>\<lparr>app := snd (showHatMenu (app \<sigma>)), phase := MenuShown\<rparr>)"
    using step_settled_ok [of \<sigma> sdk] by blast
  show ?thesis
    using start entries ok failed table norej resume by blast
qed

section \<open>The example: menu and events\<close>

lemma example_db_distinct: "distinct (map fst example_db)"
  by (simp add: example_db_def)

lemma example_keys_plain:
  "\<not> is_array_index ''none''" "\<not> is_array_index ''cap''" "is_array_index ''1''"
  by (simp_all add: is_array_index_def digit_def digits_value_def)

lemma example_entries: "Object_entries example_db = example_db"
  by (rule Object_entries_plain) (simp add: example_db_def example_keys_plain)

lemma numbered_entries: "Object_entries numbered_db = [(''1'', cap_hat), (''none'', none_hat)]"
  by (simp add: Object_entries_def numbered_db_def example_keys_plain)

lemma example_app_ctx:
  "clickHandlers (ctx example_app) = []"
  "meshes (ctx example_app) = []"
  "baseUrl example_app = ''http://host/public''"
  by (simp_all add: example_app_def new_WearAHat_def)

text \<open>Claim C6 as stated fails: for the catalog that declares the key \<open>none\<close> before the
  key \<open>1\<close>, the first button and label of the menu are those of \<open>1\<close>, the second those
  of \<open>none\<close>.\<close>

theorem showHatMenu_order_counterexample:
  "distinct (map fst (HatDatabase numbered_app)) \<and>
   map fst (HatDatabase numbered_app) = [''none'', ''1''] \<and>
   fst (showHatMenu numbered_app) = None \<and>
   map actor_name (actors (ctx (snd (showHatMenu numbered_app)))) =
     [None, Some ''1'', Some ''label'', Some ''none'', Some ''label'', Some ''label''] \<and>
   map shown_text (actors (ctx (snd (showHatMenu numbered_app)))) =
     [None, None, Some ''Cap'', None, Some ''None'', Some ''        Wear a Hat'']"
proof -
  have db: "HatDatabase numbered_app = numbered_db"
    and ctx: "actors (ctx numbered_app) = []" "meshes (ctx numbered_app) = []"
    by (simp_all add: numbered_app_def new_WearAHat_def)
  have d: "distinct (map fst (HatDatabase numbered_app))"
    by (simp add: db numbered_db_def)
  have n: "length numbered_db = Suc (Suc 0)"
    by (simp add: numbered_db_def)
  show ?thesis
    using d
    by (simp add: showHatMenu_result [OF d] db ctx numbered_entries n)
       (simp add: numbered_db_def menu_button_def menu_label_def menu_title_def no_fields_def
          shown_text_def none_hat_def cap_hat_def eval_nat_numeral)
qed

text \<open>The amended C6 for the example's catalog of two entries, neither key an array
  index.\<close>

theorem showHatMenu_layout_witness:
  "distinct (map fst (HatDatabase example_app)) \<and>
   list_all (\<lambda>k. \<not> is_array_index k) (map fst (HatDatabase example_app)) \<and>
   Object_keys (HatDatabase example_app) = [''none'', ''cap''] \<and>
   fst (showHatMenu example_app) = None \<and>
   map actor_name (actors (ctx (snd (showHatMenu example_app)))) =
     [None, Some ''none'', Some ''label'', Some ''cap'', Some ''label'', Some ''label''] \<and>
   map parentId (actors (ctx (snd (showHatMenu example_app)))) =
     [None, Some 0, Some 0, Some 0, Some 0, Some 0] \<and>
   map shown_text (actors (ctx (snd (showHatMenu example_app)))) =
     [None, None, Some ''None'', None, Some ''Cap'', Some ''        Wear a Hat''] \<and>
   map actor_y (actors (ctx (snd (showHatMenu example_app)))) =
     [0, 0.3, 0.3, 0.8, 0.8, 1.55] \<and>
   clickHandlers (ctx (snd (showHatMenu example_app))) = [(1, ''none''), (3, ''cap'')]"
proof -
  have d: "distinct (map fst (HatDatabase example_app))"
    by (simp add: example_app_fields example_db_distinct)
  have plain: "\<forall>k \<in> set (map fst (HatDatabase example_app)). \<not> is_array_index k"
    by (simp add: example_app_fields example_db_def example_keys_plain)
  note layout = showHatMenu_layout [OF d]
  have keys: "Object_keys (HatDatabase example_app) = [''none'', ''cap'']"
    using layout plain by (simp add: example_app_fields example_db_def)
  have ents: "Object_entries (HatDatabase example_app) = [(''none'', none_hat), (''cap'', cap_hat)]"
    using layout plain by (simp add: example_app_fields example_db_def)
  have len: "length (HatDatabase example_app) = Suc (Suc 0)"
    by (simp add: example_app_fields example_db_def)
  have acts: "actors (ctx (snd (showHatMenu example_app))) =
      [no_fields, menu_button 0 0 ''none'' 0.3, menu_label 0 ''None'' 0.3,
       menu_button 0 0 ''cap'' 0.8, menu_label 0 ''Cap'' 0.8, menu_title 0 1.3]"
    using conjunct1 [OF conjunct2 [OF layout]]
    by (simp add: keys ents len example_app_fields(4) example_app_ctx none_hat_def cap_hat_def)
  have hs: "clickHandlers (ctx (snd (showHatMenu example_app))) = [(1, ''none''), (3, ''cap'')]"
    using conjunct1 [OF conjunct2 [OF conjunct2 [OF layout]]]
    by (simp add: keys len example_app_fields(4) example_app_ctx)
  have "list_all (\<lambda>k. \<not> is_array_index k) (map fst (HatDatabase example_app))"
    using plain by (simp only: list_all_iff)
  then show ?thesis
    using d keys conjunct1 [OF layout]
    by (simp add: acts hs menu_button_def menu_label_def menu_title_def no_fields_def
        actor_y_def shown_text_def eval_nat_numeral)
qed

lemma example_started_fields:
  "app example_started = example_app"
  "phase example_started = AwaitingPreload"
  "promises example_started =
     [\<lparr>hp_hatId = ''none'', hp_url = None, hp_state = Fulfilled\<rparr>,
      \<lparr>hp_hatId = ''cap'', hp_url = Some ''http://host/public/cap.glb'', hp_state = Pending\<rparr>]"
  by (simp_all add: example_started_def example_session_def new_Session_def example_app_def
      example_db_def entry_promise_def truthy_def template_def none_hat_def cap_hat_def)

lemma example_step1:
  "step example_sdk SessionStarted example_session = Some example_started"
proof -
  have ph: "phase example_session = NotStarted"
    by (simp add: example_session_def new_Session_def)
  have d: "distinct (map fst (HatDatabase (app example_session)))"
    by (simp add: example_session_def new_Session_def new_WearAHat_def example_db_distinct)
  show ?thesis
    unfolding step_started_ok [OF ph d] example_started_def
    by (simp add: example_session_def new_Session_def new_WearAHat_def example_entries)
qed

lemma example_step2:
  "step example_sdk (LoadSucceeded 1 [cap_asset]) example_started =
     Some (example_started
       \<lparr>app := example_loaded,
        promises := [\<lparr>hp_hatId = ''none'', hp_url = None, hp_state = Fulfilled\<rparr>,
          \<lparr>hp_hatId = ''cap'', hp_url = Some ''http://host/public/cap.glb'',
            hp_state = Fulfilled\<rparr>]\<rparr>)"
  by (simp add: example_started_fields settle_def then_handler_def example_loaded_def
      cap_asset_def example_app_fields)

lemma example_loaded_ctx:
  "clickHandlers (ctx example_loaded) = []"
  "meshes (ctx example_loaded) = []"
  by (simp_all add: example_loaded_def example_app_ctx)

lemma example_menu_handlers:
  "clickHandlers (ctx (snd (showHatMenu example_loaded))) = [(1, ''none''), (3, ''cap'')]"
proof -
  have d: "distinct (map fst (HatDatabase example_loaded))"
    by (simp add: example_loaded_fields example_db_distinct)
  show ?thesis
    unfolding showHatMenu_result [OF d]
    by (simp add: example_loaded_fields example_loaded_ctx example_entries)
       (simp add: example_db_def)
qed

lemma example_run:
  "\<exists>\<sigma>. run example_sdk example_events example_session = Some \<sigma> \<and>
       phase \<sigma> = MenuShown \<and>
       clickHandlers (ctx (app \<sigma>)) = [(1, ''none''), (3, ''cap'')]"
proof -
  define \<sigma>2 where "\<sigma>2 = example_started
       \<lparr>app := example_loaded,
        promises := [\<lparr>hp_hatId = ''none'', hp_url = None, hp_state = Fulfilled\<rparr>,
          \<lparr>hp_hatId = ''cap'', hp_url = Some ''http://host/public/cap.glb'',
            hp_state = Fulfilled\<rparr>]\<rparr>"
  have "phase \<sigma>2 = AwaitingPreload" and "loads_settled \<sigma>2"
    and "distinct (map fst (HatDatabase (app \<sigma>2)))"
    by (simp_all add: \<sigma>2_def example_started_fields loads_settled_def example_loaded_fields
        example_db_distinct)
  then have step3: "step example_sdk PreloadSettled \<sigma>2 =
      Some (\<sigma>2\<lparr>app := snd (showHatMenu example_loaded), phase := MenuShown\<rparr>)"
    using step_settled_ok [of \<sigma>2 example_sdk] by (simp add: \<sigma>2_def)
  have step4: "step example_sdk (ButtonClicked 3 ''U'')
        (\<sigma>2\<lparr>app := snd (showHatMenu example_loaded), phase := MenuShown\<rparr>) =
      Some (\<sigma>2\<lparr>app := snd (wearHat example_sdk ''cap'' ''U'' (snd (showHatMenu example_loaded))),
               phase := MenuShown\<rparr>)"
    by (simp add: example_menu_handlers)
  have "run example_sdk example_events example_session =
      Some (\<sigma>2\<lparr>app := snd (wearHat example_sdk ''cap'' ''U'' (snd (showHatMenu example_loaded))),
               phase := MenuShown\<rparr>)"
    unfolding example_events_def
    by (simp only: run.simps example_step1 example_step2 [folded \<sigma>2_def] step3 step4
        option.case)
  then show ?thesis
    by (simp add: example_menu_handlers)
qed

text \<open>The statement of C8 for the example's run: after the click the state is one that the
  events reach, and its loads are settled.\<close>

theorem menu_after_preload_witness:
  "\<exists>\<sigma>. run example_sdk example_events (new_Session example_db ''http://host/public'') = Some \<sigma> \<and>
       clickHandlers (ctx (app \<sigma>)) = [(1, ''none''), (3, ''cap'')] \<and>
       phase \<sigma> = MenuShown \<and>
       loads_settled \<sigma>"
proof -
  obtain \<sigma> where r: "run example_sdk example_events (new_Session example_db ''http://host/public'') = Some \<sigma>"
    and ph: "phase \<sigma> = MenuShown"
    and hs: "clickHandlers (ctx (app \<sigma>)) = [(1, ''none''), (3, ''cap'')]"
    using example_run unfolding example_session_def by blast
  have "loads_settled \<sigma>"
    using menu_after_preload [OF r] ph by blast
  then show ?thesis
    using r ph hs by blast
qed

text \<open>The statement of C5 in the example, after the session has started: the load of the cap
  is pending, and it can succeed or fail.\<close>

theorem preloadHats_loads_witness:
  "distinct (map fst example_db) \<and>
   run example_sdk [SessionStarted] (new_Session example_db ''http://host/public'') =
     Some example_started \<and>
   promises example_started =
     [\<lparr>hp_hatId = ''none'', hp_url = None, hp_state = Fulfilled\<rparr>,
      \<lparr>hp_hatId = ''cap'', hp_url = Some ''http://host/public/cap.glb'', hp_state = Pending\<rparr>] \<and>
   (\<exists>\<sigma>'. step example_sdk (LoadSucceeded 1 [cap_asset]) example_started = Some \<sigma>' \<and>
      prefabs (app \<sigma>') ''cap'' = Some cap_asset \<and>
      hp_state (promises \<sigma>' ! 1) = Fulfilled) \<and>
   (\<exists>\<sigma>'. step example_sdk (LoadFailed 1 ''boom'') example_started = Some \<sigma>' \<and>
      prefabs (app \<sigma>') ''cap'' = None \<and>
      error_log (app \<sigma>') = [''boom''] \<and>
      hp_state (promises \<sigma>' ! 1) = Fulfilled \<and>
      phase \<sigma>' = AwaitingPreload) \<and>
   prefabs (app example_started) ''none'' = None"
proof -
  have r: "run example_sdk [SessionStarted] (new_Session example_db ''http://host/public'') =
     Some example_started"
    using example_step1 by (simp add: example_session_def)
  note T = preloadHats_loads [OF example_db_distinct r]
  have pending: "1 < length (promises example_started) \<and>
      hp_state (promises example_started ! 1) = Pending"
    by (simp add: example_started_fields)
  from T pending obtain \<sigma>a where a: "step example_sdk (LoadSucceeded 1 [cap_asset]) example_started = Some \<sigma>a"
    "prefabs (app \<sigma>a) =
       (prefabs (app example_started))(hp_hatId (promises example_started ! 1) :=
          find prefab_not_null [cap_asset])"
    "promises \<sigma>a = (promises example_started)
       [1 := (promises example_started ! 1)\<lparr>hp_state := Fulfilled\<rparr>]"
    by blast
  from T pending obtain \<sigma>b where b: "step example_sdk (LoadFailed 1 ''boom'') example_started = Some \<sigma>b"
    "prefabs (app \<sigma>b) (hp_hatId (promises example_started ! 1)) = None"
    "error_log (app \<sigma>b) = error_log (app example_started) @ [''boom'']"
    "promises \<sigma>b = (promises example_started)
       [1 := (promises example_started ! 1)\<lparr>hp_state := Fulfilled\<rparr>]"
    "phase \<sigma>b = phase example_started"
    by blast
  have none: "prefabs (app example_started) ''none'' = None"
    using T by (simp add: has_resource_def example_db_lookup example_truthy)
  have "prefabs (app \<sigma>a) ''cap'' = Some cap_asset \<and> hp_state (promises \<sigma>a ! 1) = Fulfilled"
    by (simp add: a example_started_fields cap_asset_def)
  moreover have "prefabs (app \<sigma>b) ''cap'' = None \<and> error_log (app \<sigma>b) = [''boom''] \<and>
      hp_state (promises \<sigma>b ! 1) = Fulfilled \<and> phase \<sigma>b = AwaitingPreload"
    using b(2) by (simp add: b(3,4,5) example_started_fields example_app_def new_WearAHat_def)
  ultimately show ?thesis
    using example_db_distinct r a(1) b(1) none example_started_fields(3) by blast
qed

section \<open>The attachment invariant in every state the events reach\<close>

lemma hats_of_extend:
  assumes "actors (ctx s1) = actors (ctx s) @ new" and "\<forall>a \<in> set new. \<not> attached_to u a"
  shows "hats_of u s1 = hats_of u s"
proof -
  let ?m = "length (actors (ctx s))"
  let ?P = "\<lambda>i. attached_to u (actors (ctx s1) ! i)"
  have len: "length (actors (ctx s1)) = ?m + length new"
    by (simp add: assms(1))
  have split: "[0..<?m + length new] = [0..<?m] @ [?m..<?m + length new]"
    by (rule upt_add_eq_append) simp
  have old: "filter ?P [0..<?m] = filter (\<lambda>i. attached_to u (actors (ctx s) ! i)) [0..<?m]"
    by (rule filter_cong) (simp_all add: assms(1) nth_append)
  have "\<not> ?P i" if "i \<in> set [?m..<?m + length new]" for i
  proof -
    have i: "?m \<le> i" "i - ?m < length new"
      using that by auto
    then have "actors (ctx s1) ! i = new ! (i - ?m)"
      by (simp add: assms(1) nth_append)
    moreover have "new ! (i - ?m) \<in> set new"
      using i(2) by (rule nth_mem)
    ultimately show ?thesis
      using assms(2) by simp
  qed
  then have new: "filter ?P [?m..<?m + length new] = []"
    unfolding filter_empty_conv by blast
  have "hats_of u s1 = filter ?P [0..<?m] @ filter ?P [?m..<?m + length new]"
    unfolding hats_of_def len split filter_append ..
  then show ?thesis
    unfolding old new hats_of_def by simp
qed

lemma hat_inv_extend:
  assumes "hat_inv u s" and "actors (ctx s1) = actors (ctx s) @ new"
    and "\<forall>a \<in> set new. \<not> attached_to u a"
    and "destroyed (ctx s1) = destroyed (ctx s)" and "attachedHats s1 u = attachedHats s u"
  shows "hat_inv u s1"
proof -
  have "live_hats u s1 = live_hats u s"
    by (simp add: live_hats_def hats_of_extend [OF assms(2,3)] assms(4))
  moreover have "table_entry u s1 = table_entry u s"
    by (simp add: table_entry_def assms(5))
  moreover have "\<forall>d \<in> destroyed (ctx s1). d < length (actors (ctx s1))"
  proof
    fix d assume "d \<in> destroyed (ctx s1)"
    then have "d < length (actors (ctx s))"
      using assms(1) by (simp add: hat_inv_def assms(4))
    then show "d < length (actors (ctx s1))"
      by (simp add: assms(2))
  qed
  ultimately show ?thesis
    using assms(1) by (simp add: hat_inv_def)
qed

lemma hat_inv_destroy_other:
  assumes "hat_inv u s" and "hat_inv v s" and "u \<noteq> v"
  shows "hat_inv u (snd (destroy_attached v s))"
proof (cases "attachedHats s v")
  case None
  then show ?thesis
    using assms(1) by (simp add: destroy_attached_absent)
next
  case (Some a)
  have a: "a \<in> set (hats_of v s)" "a < length (actors (ctx s))"
    using table_entry_bound [OF assms(2) Some] by simp_all
  then have "attached_to v (actors (ctx s) ! a)"
    by (simp add: hats_of_def)
  then have "\<not> attached_to u (actors (ctx s) ! a)"
    using assms(3) by (auto simp: attached_to_def split: option.splits)
  then have "a \<notin> set (hats_of u s)"
    by (simp add: hats_of_def)
  then have "filter (\<lambda>i. i \<notin> insert a (destroyed (ctx s))) (hats_of u s) =
      filter (\<lambda>i. i \<notin> destroyed (ctx s)) (hats_of u s)"
    by (intro filter_cong) auto
  then have "live_hats u (snd (destroy_attached v s)) = live_hats u s"
    using Some by (simp add: live_hats_def destroy_attached_destroyed)
  moreover have "table_entry u (snd (destroy_attached v s)) = table_entry u s"
    using assms(3) by (simp add: table_entry_def)
  moreover have "\<forall>d \<in> destroyed (ctx (snd (destroy_attached v s))). d < length (actors (ctx s))"
    using assms(1) Some a(2) by (simp add: hat_inv_def destroy_attached_destroyed)
  ultimately show ?thesis
    using assms(1) by (simp add: hat_inv_def)
qed

lemma hat_inv_wearHat_other:
  assumes "hat_inv u s" and "hat_inv v s" and "u \<noteq> v"
  shows "hat_inv u (snd (wearHat sdk hatId v s))"
proof -
  have inv2: "hat_inv u (snd (destroy_attached v s))"
    by (rule hat_inv_destroy_other [OF assms])
  from wearHat_cases [of sdk hatId v s] show ?thesis
  proof
    assume "snd (wearHat sdk hatId v s) = snd (destroy_attached v s)"
    then show ?thesis using inv2 by simp
  next
    assume "\<exists>new. attached_to v new \<and>
      snd (wearHat sdk hatId v s) =
        (snd (destroy_attached v s))
          \<lparr>ctx := (ctx (snd (destroy_attached v s)))
                   \<lparr>actors := actors (ctx (snd (destroy_attached v s))) @ [new]\<rparr>,
           attachedHats := (attachedHats (snd (destroy_attached v s)))
                   (v \<mapsto> length (actors (ctx (snd (destroy_attached v s)))))\<rparr>"
    then obtain new where n: "attached_to v new"
      and eq: "snd (wearHat sdk hatId v s) =
        (snd (destroy_attached v s))
          \<lparr>ctx := (ctx (snd (destroy_attached v s)))
                   \<lparr>actors := actors (ctx (snd (destroy_attached v s))) @ [new]\<rparr>,
           attachedHats := (attachedHats (snd (destroy_attached v s)))
                   (v \<mapsto> length (actors (ctx (snd (destroy_attached v s)))))\<rparr>"
      by blast
    have "\<not> attached_to u new"
      using n assms(3) by (auto simp: attached_to_def split: option.splits)
    then show ?thesis
      unfolding eq using assms(3)
      by (intro hat_inv_extend [OF inv2, of _ "[new]"]) simp_all
  qed
qed

lemma hat_inv_wearHat_any:
  assumes "\<forall>u. hat_inv u s"
  shows "hat_inv u (snd (wearHat sdk hatId v s))"
proof (cases "u = v")
  case True
  have "hat_inv v s" using assms by simp
  then show ?thesis
    unfolding True by (rule hat_inv_wearHat)
next
  case False
  have "hat_inv u s" and "hat_inv v s" using assms by simp_all
  then show ?thesis
    using False by (rule hat_inv_wearHat_other)
qed

lemma hat_inv_userLeft_any:
  assumes "\<forall>u. hat_inv u s"
  shows "hat_inv u (snd (userLeft v s))"
proof (cases "u = v")
  case True
  have "hat_inv v s" using assms by simp
  then show ?thesis
    unfolding True userLeft_def by (rule hat_inv_destroy_attached)
next
  case False
  have "hat_inv u s" and "hat_inv v s" using assms by simp_all
  then show ?thesis
    unfolding userLeft_def using False by (rule hat_inv_destroy_other)
qed

lemma unattached_menu_actors:
  "\<not> attached_to u (menu_button menu mesh hatId y)"
  "\<not> attached_to u (menu_label menu shown y)"
  "\<not> attached_to u (menu_label_undefined menu y)"
  "\<not> attached_to u (menu_title menu y)"
  "\<not> attached_to u no_fields"
  by (simp_all add: attached_to_def menu_button_def menu_label_def menu_label_undefined_def
      menu_title_def no_fields_def)

lemma menu_loop_extends:
  "\<exists>new. actors (ctx (snd (snd (menu_loop menu mesh ks y s)))) = actors (ctx s) @ new \<and>
     (\<forall>a \<in> set new. \<not> attached_to u a) \<and>
     destroyed (ctx (snd (snd (menu_loop menu mesh ks y s)))) = destroyed (ctx s) \<and>
     attachedHats (snd (snd (menu_loop menu mesh ks y s))) = attachedHats s"
proof (induction ks arbitrary: y s)
  case Nil
  then show ?case by simp
next
  case (Cons k ks)
  have labelled: ?case
    if one: "menu_loop menu mesh (k # ks) y s =
        menu_loop menu mesh ks (y + 0.5)
          (s\<lparr>ctx := (ctx s)
            \<lparr>actors := actors (ctx s) @ [menu_button menu mesh k y, lab],
             clickHandlers := clickHandlers (ctx s) @ [(length (actors (ctx s)), k)]\<rparr>\<rparr>)"
      and lab: "\<not> attached_to u lab" for lab
  proof -
    define s1 where "s1 = s\<lparr>ctx := (ctx s)
      \<lparr>actors := actors (ctx s) @ [menu_button menu mesh k y, lab],
       clickHandlers := clickHandlers (ctx s) @ [(length (actors (ctx s)), k)]\<rparr>\<rparr>"
    have one': "menu_loop menu mesh (k # ks) y s = menu_loop menu mesh ks (y + 0.5) s1"
      unfolding s1_def by (rule one)
    from Cons.IH [of "y + 0.5" s1] obtain new where
      new: "actors (ctx (snd (snd (menu_loop menu mesh ks (y + 0.5) s1)))) = actors (ctx s1) @ new"
        "\<forall>a \<in> set new. \<not> attached_to u a"
        "destroyed (ctx (snd (snd (menu_loop menu mesh ks (y + 0.5) s1)))) = destroyed (ctx s1)"
        "attachedHats (snd (snd (menu_loop menu mesh ks (y + 0.5) s1))) = attachedHats s1"
      by blast
    have "actors (ctx (snd (snd (menu_loop menu mesh (k # ks) y s)))) =
        actors (ctx s) @ ([menu_button menu mesh k y, lab] @ new)"
      unfolding one' new(1) by (simp add: s1_def)
    moreover have "\<forall>a \<in> set ([menu_button menu mesh k y, lab] @ new). \<not> attached_to u a"
      using new(2) lab by (simp add: unattached_menu_actors)
    moreover have "destroyed (ctx (snd (snd (menu_loop menu mesh (k # ks) y s)))) = destroyed (ctx s)"
      unfolding one' new(3) by (simp add: s1_def)
    moreover have "attachedHats (snd (snd (menu_loop menu mesh (k # ks) y s))) = attachedHats s"
      unfolding one' new(4) by (simp add: s1_def)
    ultimately show ?thesis
      by blast
  qed
  show ?case
  proof (cases "read_property (lookup (HatDatabase s)) k")
    case Undefined
    then show ?thesis
      by (simp add: Actor_Create_def setBehavior_onClick_def unattached_menu_actors)
  next
    case Inherited
    have "menu_loop menu mesh (k # ks) y s =
        menu_loop menu mesh ks (y + 0.5)
          (s\<lparr>ctx := (ctx s)
            \<lparr>actors := actors (ctx s) @ [menu_button menu mesh k y, menu_label_undefined menu y],
             clickHandlers := clickHandlers (ctx s) @ [(length (actors (ctx s)), k)]\<rparr>\<rparr>)"
      by (simp add: Inherited Actor_Create_def setBehavior_onClick_def)
         (auto intro!: arg_cong [where f = "menu_loop menu mesh ks (y + 1 / 2)"]
            WearAHat.equality Context.equality)
    then show ?thesis
      by (rule labelled) (rule unattached_menu_actors)
  next
    case (Own r)
    have "menu_loop menu mesh (k # ks) y s =
        menu_loop menu mesh ks (y + 0.5)
          (s\<lparr>ctx := (ctx s)
            \<lparr>actors := actors (ctx s) @ [menu_button menu mesh k y, menu_label menu (displayName r) y],
             clickHandlers := clickHandlers (ctx s) @ [(length (actors (ctx s)), k)]\<rparr>\<rparr>)"
      by (simp add: Own Actor_Create_def setBehavior_onClick_def)
         (auto intro!: arg_cong [where f = "menu_loop menu mesh ks (y + 1 / 2)"]
            WearAHat.equality Context.equality)
    then show ?thesis
      by (rule labelled) (rule unattached_menu_actors)
  qed
qed

lemma hat_inv_showHatMenu:
  assumes "hat_inv u s"
  shows "hat_inv u (snd (showHatMenu s))"
proof -
  define s0 where "s0 = s\<lparr>ctx := (ctx s)
      \<lparr>actors := actors (ctx s) @ [no_fields],
       meshes := meshes (ctx s) @
         [\<lparr>mesh_name = ''button'', mesh_width = 0.3, mesh_height = 0.3, mesh_depth = 0.01\<rparr>]\<rparr>\<rparr>"
  have start: "showHatMenu s =
     (case menu_loop (length (actors (ctx s))) (length (meshes (ctx s)))
             (Object_keys (HatDatabase s)) 0.3 s0 of
        (Some e, y, s1) \<Rightarrow> (Some e, s1)
      | (None, y, s1) \<Rightarrow>
          let (title, c3) = Actor_Create (menu_title (length (actors (ctx s))) y) (ctx s1)
          in (None, s1\<lparr>ctx := c3\<rparr>))"
    by (simp add: showHatMenu_def Actor_Create_def createBoxMesh_def s0_def)
  obtain r y s1 where loop: "menu_loop (length (actors (ctx s))) (length (meshes (ctx s)))
      (Object_keys (HatDatabase s)) 0.3 s0 = (r, y, s1)"
    by (metis prod_cases3)
  have inv0: "hat_inv u s0"
    by (rule hat_inv_extend [OF assms, of _ "[no_fields]"])
       (simp_all add: s0_def unattached_menu_actors)
  have "\<exists>new. actors (ctx s1) = actors (ctx s0) @ new \<and> (\<forall>a \<in> set new. \<not> attached_to u a) \<and>
      destroyed (ctx s1) = destroyed (ctx s0) \<and> attachedHats s1 = attachedHats s0"
    using menu_loop_extends [of "length (actors (ctx s))" "length (meshes (ctx s))"
        "Object_keys (HatDatabase s)" "0.3" s0 u]
    unfolding loop by simp
  then have inv1: "hat_inv u s1"
    using hat_inv_extend [OF inv0] by metis
  show ?thesis
  proof (cases r)
    case None
    have "hat_inv u (s1\<lparr>ctx := (ctx s1)\<lparr>actors := actors (ctx s1) @
        [menu_title (length (actors (ctx s))) y]\<rparr>\<rparr>)"
      by (rule hat_inv_extend [OF inv1, of _ "[menu_title (length (actors (ctx s))) y]"])
         (simp_all add: unattached_menu_actors)
    then show ?thesis
      unfolding start loop using None by (simp add: Actor_Create_def)
  next
    case (Some e)
    then show ?thesis
      unfolding start loop using inv1 by simp
  qed
qed

lemma step_hat_inv:
  assumes "step sdk e \<sigma> = Some \<sigma>'" and "\<forall>u. hat_inv u (app \<sigma>)"
  shows "hat_inv u (app \<sigma>')"
proof (cases e)
  case SessionStarted
  then show ?thesis
    using assms by (auto split: if_splits sum.splits)
next
  case (LoadSucceeded i assets)
  have "hat_inv u (then_handler k assets (app \<sigma>))" for k
    by (rule hat_inv_extend [of u "app \<sigma>" _ "[]"]) (simp_all add: assms(2))
  then show ?thesis
    using assms(1) LoadSucceeded by (auto split: if_splits)
next
  case (LoadFailed i err)
  have "hat_inv u (catch_handler err (app \<sigma>))"
    by (rule hat_inv_extend [of u "app \<sigma>" _ "[]"]) (simp_all add: assms(2) catch_handler_def)
  then show ?thesis
    using assms(1) LoadFailed by (auto split: if_splits)
next
  case PreloadSettled
  obtain r s1 where menu: "showHatMenu (app \<sigma>) = (r, s1)"
    by (cases "showHatMenu (app \<sigma>)")
  have "hat_inv u s1"
    using hat_inv_showHatMenu [of u "app \<sigma>"] assms(2) by (simp add: menu)
  then show ?thesis
    using assms PreloadSettled menu
    by (cases r; cases "Promise_all (map hp_state (promises \<sigma>))") (auto split: if_splits)
next
  case (ButtonClicked b v)
  then show ?thesis
    using assms(1) hat_inv_wearHat_any [OF assms(2)] by (auto split: option.splits)
next
  case (UserLeftEvent v)
  then show ?thesis
    using assms(1) hat_inv_userLeft_any [OF assms(2)] by auto
qed

lemma run_hat_inv:
  assumes "run sdk evs \<sigma> = Some \<sigma>'" and "\<forall>u. hat_inv u (app \<sigma>)"
  shows "hat_inv u (app \<sigma>')"
  using assms
proof (induction evs arbitrary: \<sigma>)
  case Nil
  then show ?case by simp
next
  case (Cons e evs)
  from Cons.prems(1) obtain \<sigma>1 where s1: "step sdk e \<sigma> = Some \<sigma>1"
    and rest: "run sdk evs \<sigma>1 = Some \<sigma>'"
    by (auto split: option.splits)
  have "\<forall>u. hat_inv u (app \<sigma>1)"
    using step_hat_inv [OF s1 Cons.prems(2)] by simp
  then show ?case
    by (rule Cons.IH [OF rest])
qed

lemma hat_inv_reachable:
  assumes "run sdk evs (new_Session db url) = Some \<sigma>"
  shows "hat_inv u (app \<sigma>)"
proof (rule run_hat_inv [OF assms])
  show "\<forall>u. hat_inv u (app (new_Session db url))"
    by (simp add: hat_inv_def live_hats_def hats_of_def table_entry_def new_Session_def
        new_WearAHat_def)
qed

section \<open>User ids that name inherited properties\<close>

text \<open>In every state that the events of a session reach, the attachment table has no
  entry under the name of an inherited property: for a user with such an id, both
  \<^verbatim>\<open>wearHat\<close> and \<^verbatim>\<open>userLeft\<close> throw in their first statement and change nothing.\<close>

lemma showHatMenu_attachedHats:
  "attachedHats (snd (showHatMenu s)) = attachedHats s"
proof -
  define s0 where "s0 = s\<lparr>ctx := (ctx s)
      \<lparr>actors := actors (ctx s) @ [no_fields],
       meshes := meshes (ctx s) @
         [\<lparr>mesh_name = ''button'', mesh_width = 0.3, mesh_height = 0.3, mesh_depth = 0.01\<rparr>]\<rparr>\<rparr>"
  have start: "showHatMenu s =
     (case menu_loop (length (actors (ctx s))) (length (meshes (ctx s)))
             (Object_keys (HatDatabase s)) 0.3 s0 of
        (Some e, y, s1) \<Rightarrow> (Some e, s1)
      | (None, y, s1) \<Rightarrow>
          let (title, c3) = Actor_Create (menu_title (length (actors (ctx s))) y) (ctx s1)
          in (None, s1\<lparr>ctx := c3\<rparr>))"
    by (simp add: showHatMenu_def Actor_Create_def createBoxMesh_def s0_def)
  obtain r y s1 where loop: "menu_loop (length (actors (ctx s))) (length (meshes (ctx s)))
      (Object_keys (HatDatabase s)) 0.3 s0 = (r, y, s1)"
    by (metis prod_cases3)
  have "attachedHats s1 = attachedHats s0"
    using menu_loop_extends [of "length (actors (ctx s))" "length (meshes (ctx s))"
        "Object_keys (HatDatabase s)" "0.3" s0 "[]"]
    unfolding loop by auto
  then have "attachedHats s1 = attachedHats s"
    by (simp add: s0_def)
  then show ?thesis
    unfolding start loop by (cases r) (simp_all add: Actor_Create_def)
qed

lemma wearHat_inherited_entry:
  assumes "\<forall>k \<in> set Object_prototype_keys. attachedHats s k = None"
    and "k \<in> set Object_prototype_keys"
  shows "attachedHats (snd (wearHat sdk hatId u s)) k = None"
proof (cases "k = u")
  case True
  then have "wearHat sdk hatId u s = (Some TypeError, s)"
    using assms by (simp add: wearHat_first_throws)
  then show ?thesis
    using assms by simp
next
  case False
  then show ?thesis
    using assms by (simp add: wearHat_other)
qed

lemma userLeft_inherited_entry:
  assumes "\<forall>k \<in> set Object_prototype_keys. attachedHats s k = None"
    and "k \<in> set Object_prototype_keys"
  shows "attachedHats (snd (userLeft u s)) k = None"
  using assms by (simp add: userLeft_def)

lemma step_inherited_entry:
  assumes "step sdk e \<sigma> = Some \<sigma>'"
    and "\<forall>k \<in> set Object_prototype_keys. attachedHats (app \<sigma>) k = None"
  shows "\<forall>k \<in> set Object_prototype_keys. attachedHats (app \<sigma>') k = None"
proof (cases e)
  case SessionStarted
  then show ?thesis
    using assms by (auto split: if_splits sum.splits)
next
  case (LoadSucceeded i assets)
  then show ?thesis
    using assms by (auto simp: settle_def split: if_splits)
next
  case (LoadFailed i err)
  then show ?thesis
    using assms by (auto simp: settle_def catch_handler_def split: if_splits)
next
  case PreloadSettled
  obtain r s1 where menu: "showHatMenu (app \<sigma>) = (r, s1)"
    by (cases "showHatMenu (app \<sigma>)")
  have "attachedHats s1 = attachedHats (app \<sigma>)"
    using showHatMenu_attachedHats [of "app \<sigma>"] by (simp add: menu)
  then show ?thesis
    using assms PreloadSettled menu
    by (cases r; cases "Promise_all (map hp_state (promises \<sigma>))") (auto split: if_splits)
next
  case (ButtonClicked b v)
  then show ?thesis
    using assms(1) wearHat_inherited_entry [OF assms(2)] by (auto split: option.splits)
next
  case (UserLeftEvent v)
  then show ?thesis
    using assms(1) userLeft_inherited_entry [OF assms(2)] by auto
qed

lemma run_inherited_entry:
  assumes "run sdk evs \<sigma> = Some \<sigma>'"
    and "\<forall>k \<in> set Object_prototype_keys. attachedHats (app \<sigma>) k = None"
  shows "\<forall>k \<in> set Object_prototype_keys. attachedHats (app \<sigma>') k = None"
  using assms
proof (induction evs arbitrary: \<sigma>)
  case Nil
  then show ?case by simp
next
  case (Cons e evs)
  from Cons.prems(1) obtain \<sigma>1 where s1: "step sdk e \<sigma> = Some \<sigma>1"
    and rest: "run sdk evs \<sigma>1 = Some \<sigma>'"
    by (auto split: option.splits)
  show ?case
    by (rule Cons.IH [OF rest step_inherited_entry [OF s1 Cons.prems(2)]])
qed

lemma inherited_ids_reachable:
  assumes "run sdk evs (new_Session db url) = Some \<sigma>"
    and "u \<in> set Object_prototype_keys"
  shows "attachedHats (app \<sigma>) u = None \<and>
         userLeft u (app \<sigma>) = (Some TypeError, app \<sigma>) \<and>
         wearHat sdk hatId u (app \<sigma>) = (Some TypeError, app \<sigma>)"
proof -
  have "\<forall>k \<in> set Object_prototype_keys. attachedHats (app (new_Session db url)) k = None"
    by (simp add: new_Session_def new_WearAHat_def)
  then have none: "attachedHats (app \<sigma>) u = None"
    using run_inherited_entry [OF assms(1)] assms(2) by blast
  have "userLeft u (app \<sigma>) = (Some TypeError, app \<sigma>)"
    using none assms(2) by (simp add: userLeft_def destroy_attached_def read_property_def)
  then show ?thesis
    using none assms(2) by (simp add: wearHat_first_throws)
qed

end
